theory Spec2Isabelle
  imports
    Complex_Main
    "HOL-Library.Char_ord"
    "HOL-Library.List_Lexorder"
    "HOL-Library.Product_Lexorder"
begin

section \<open>generate\_games\_js.py: data model\<close>

text \<open>
  Python strings are modelled as HOL strings whose characters are read as code points
  below 256; Python integers are \<open>int\<close>. Every function of the script that touches the
  network, the clock or the file system takes the read-only environment \<open>env\<close> and the
  mutable \<open>world\<close>, and returns its result together with the world it leaves behind: a
  raised exception is \<open>Inl\<close>, a returned value is \<open>Inr\<close>. Diagnostic prints to stderr are
  not part of the model.
\<close>

datatype error =
    TimeoutError string          \<comment> \<open>raised at the end of \<open>http_get_xml_text\<close>, with its message\<close>
  | HTTPError int                \<comment> \<open>\<open>resp.raise_for_status()\<close>, with the status code\<close>
  | RequestException string      \<comment> \<open>\<open>requests.get\<close> itself failed\<close>
  | ParseError                   \<comment> \<open>\<open>ET.fromstring\<close>\<close>
  | ValueError                   \<comment> \<open>\<open>int(...)\<close>, \<open>range(...)\<close>\<close>
  | UnicodeDecodeError           \<comment> \<open>the \<open>unicode_escape\<close> codec\<close>
  | FileNotFoundError            \<comment> \<open>\<open>open(path, "r")\<close>\<close>
  | KeyError                     \<comment> \<open>\<open>game_to_owners[gid]\<close>\<close>
  | Unrepresentable              \<comment> \<open>not raised by the script: the value lies outside the model's strings\<close>

datatype param = PStr string | PInt int

record request =
  req_url :: string
  req_params :: "(string \<times> param) list"
  req_headers :: "(string \<times> string) list"
  req_timeout :: int

record response =
  status_code :: int
  resp_text :: string

datatype element = Element (tag: string) (attrib: "(string \<times> string) list") (children: "element list")

record env =
  transport :: "nat \<Rightarrow> request \<Rightarrow> error + response"
    \<comment> \<open>\<open>requests.get\<close>: the answer to a request, given how many requests were issued before it\<close>
  fromstring :: "string \<Rightarrow> error + element"
    \<comment> \<open>\<open>ET.fromstring\<close>\<close>
  int_max_str_digits :: nat
    \<comment> \<open>\<open>sys.get_int_max_str_digits()\<close>; 0 when the interpreter has no limit\<close>
  getenv :: "string \<rightharpoonup> string"
  getcwd :: string
  today :: string
    \<comment> \<open>\<open>time.strftime('%Y-%m-%d')\<close>\<close>

record world =
  sent :: "request list"         \<comment> \<open>the requests issued so far, oldest first\<close>
  slept :: "rat list"            \<comment> \<open>the arguments of \<open>time.sleep\<close> so far, oldest first\<close>
  files :: "string \<rightharpoonup> string"  \<comment> \<open>the text files, by path\<close>

definition BGG_COLLECTION_URL :: string where
  "BGG_COLLECTION_URL = ''https://boardgamegeek.com/xmlapi2/collection''"

definition BGG_THING_URL :: string where
  "BGG_THING_URL = ''https://boardgamegeek.com/xmlapi2/thing''"

subsection \<open>\<open>str(int)\<close>\<close>

fun str_nat :: "nat \<Rightarrow> string" where
  "str_nat n = (if n < 10 then [''0123456789'' ! n] else str_nat (n div 10) @ [''0123456789'' ! (n mod 10)])"

declare str_nat.simps [simp del]

definition str_int :: "int \<Rightarrow> string" where
  "str_int i = (if i < 0 then CHR ''-'' # str_nat (nat (- i)) else str_nat (nat i))"

definition str_opt_int :: "int option \<Rightarrow> string" where
  "str_opt_int v = (case v of None \<Rightarrow> ''None'' | Some i \<Rightarrow> str_int i)"

section \<open>The shared transport routine\<close>

definition raise_for_status :: "response \<Rightarrow> error + unit" where
  "raise_for_status resp =
     (if 400 \<le> status_code resp \<and> status_code resp < 500 then Inl (HTTPError (status_code resp))
      else if 500 \<le> status_code resp \<and> status_code resp < 600 then Inl (HTTPError (status_code resp))
      else Inr ())"

definition timeout_message :: "string \<Rightarrow> int option \<Rightarrow> int \<Rightarrow> string" where
  "timeout_message u last_status max_attempts =
     u @ '' kept returning '' @ str_opt_int last_status @ '' after '' @ str_int max_attempts @ '' attempts.''"

text \<open>
  The body of \<open>for _ in range(max_attempts)\<close>, with the number of iterations left as the
  recursion argument and \<open>last_status\<close> carried along.
\<close>

fun http_get_loop ::
  "env \<Rightarrow> string \<Rightarrow> int \<Rightarrow> request \<Rightarrow> rat \<Rightarrow> nat \<Rightarrow> int option \<Rightarrow> world \<Rightarrow> (error + string) \<times> world" where
  "http_get_loop E u max_attempts req backoff_seconds 0 last_status w =
     (Inl (TimeoutError (timeout_message u last_status max_attempts)), w)"
| "http_get_loop E u max_attempts req backoff_seconds (Suc n) last_status w =
     (let w1 = w\<lparr>sent := sent w @ [req]\<rparr> in
      case transport E (length (sent w)) req of
        Inl e \<Rightarrow> (Inl e, w1)
      | Inr resp \<Rightarrow>
          if status_code resp = 202
          then http_get_loop E u max_attempts req backoff_seconds n (Some (status_code resp))
                 (w1\<lparr>slept := slept w1 @ [backoff_seconds]\<rparr>)
          else (case raise_for_status resp of
                  Inl e \<Rightarrow> (Inl e, w1)
                | Inr _ \<Rightarrow> (Inr (resp_text resp), w1)))"

definition request_of :: "string \<Rightarrow> string \<Rightarrow> (string \<times> param) list \<Rightarrow> int \<Rightarrow> string \<Rightarrow> request" where
  \<comment> \<open>the arguments of \<open>requests.get\<close>\<close>
  "request_of u token ps tmo user_agent =
     (let headers = [(''User-Agent'', user_agent), (''Authorization'', ''Bearer '' @ token)]
      in \<lparr>req_url = u, req_params = ps, req_headers = headers, req_timeout = tmo\<rparr>)"

definition http_get_xml_text ::
  "env \<Rightarrow> string \<Rightarrow> string \<Rightarrow> (string \<times> param) list \<Rightarrow> int \<Rightarrow> int \<Rightarrow> rat \<Rightarrow> string \<Rightarrow> world
     \<Rightarrow> (error + string) \<times> world" where
  "http_get_xml_text E u token ps tmo max_attempts backoff_seconds user_agent w =
     http_get_loop E u max_attempts (request_of u token ps tmo user_agent) backoff_seconds
       (nat max_attempts) None w"

section \<open>Strings, integers and XML elements\<close>

definition isdigit_char :: "char \<Rightarrow> bool" where
  \<comment> \<open>the code points below 256 that \<open>str.isdigit\<close> accepts: 0-9 and the superscripts 2, 3, 1\<close>
  "isdigit_char c = (let n = (of_char c :: nat) in (48 \<le> n \<and> n \<le> 57) \<or> n = 178 \<or> n = 179 \<or> n = 185)"

definition isdigit :: "string \<Rightarrow> bool" where
  "isdigit s = (s \<noteq> [] \<and> list_all isdigit_char s)"

definition isdecimal_char :: "char \<Rightarrow> bool" where
  "isdecimal_char c = (let n = (of_char c :: nat) in 48 \<le> n \<and> n \<le> 57)"

definition decimal_value :: "string \<Rightarrow> nat" where
  "decimal_value s = foldl (\<lambda>acc c. 10 * acc + (of_char c - 48)) 0 s"

definition py_int :: "env \<Rightarrow> string \<Rightarrow> error + int" where
  \<comment> \<open>\<open>int(s)\<close> for a string without whitespace, sign or underscore (the script converts
      only strings that passed \<open>isdigit\<close>): every character must be a decimal digit, and the
      number of digits within the interpreter's limit\<close>
  "py_int E s =
     (if s = [] \<or> \<not> list_all isdecimal_char s then Inl ValueError
      else if 0 < int_max_str_digits E \<and> 640 < length s \<and> int_max_str_digits E < length s
      then Inl ValueError
      else Inr (int (decimal_value s)))"

definition findall :: "element \<Rightarrow> string \<Rightarrow> element list" where
  "findall e t = filter (\<lambda>c. tag c = t) (children e)"

definition get_attr :: "element \<Rightarrow> string \<Rightarrow> string option" where
  "get_attr e k = map_of (attrib e) k"

text \<open>The loop "de-dupe preserve order": \<open>seen\<close> and \<open>out\<close> are its two variables.\<close>

fun dedupe :: "'a list \<Rightarrow> 'a set \<Rightarrow> 'a list \<Rightarrow> 'a list" where
  "dedupe [] seen out = out"
| "dedupe (u # us) seen out =
     (if u \<notin> seen then dedupe us (insert u seen) (out @ [u]) else dedupe us seen out)"

section \<open>The collection fetcher\<close>

fun collect_objectids :: "env \<Rightarrow> element list \<Rightarrow> int list \<Rightarrow> error + int list" where
  "collect_objectids E [] ids = Inr ids"
| "collect_objectids E (item # items) ids =
     (case get_attr item ''objectid'' of
        None \<Rightarrow> collect_objectids E items ids
      | Some oid \<Rightarrow>
          if oid \<noteq> [] \<and> isdigit oid
          then (case py_int E oid of
                  Inl e \<Rightarrow> Inl e
                | Inr v \<Rightarrow> collect_objectids E items (ids @ [v]))
          else collect_objectids E items ids)"

definition collection_params :: "string \<Rightarrow> (string \<times> param) list" where
  "collection_params username =
     [(''username'', PStr username), (''own'', PInt 1), (''subtype'', PStr ''boardgame'')]"

definition fetch_owned_game_ids_for_user :: "env \<Rightarrow> string \<Rightarrow> string \<Rightarrow> world \<Rightarrow> (error + int list) \<times> world" where
  "fetch_owned_game_ids_for_user E username token w =
     (case http_get_xml_text E BGG_COLLECTION_URL token (collection_params username) 30 25 2
             ''bgg-games-js-generator/1.4'' w of
        (Inl e, w1) \<Rightarrow> (Inl e, w1)
      | (Inr xml_text, w1) \<Rightarrow>
          (case fromstring E xml_text of
             Inl e \<Rightarrow> (Inl e, w1)
           | Inr doc \<Rightarrow>
               (case collect_objectids E (findall doc ''item'') [] of
                  Inl e \<Rightarrow> (Inl e, w1)
                | Inr ids \<Rightarrow> (Inr (dedupe ids {} []), w1))))"

section \<open>The name resolver\<close>

definition range3 :: "int \<Rightarrow> int \<Rightarrow> int \<Rightarrow> error + int list" where
  \<comment> \<open>\<open>range(start, stop, step)\<close>, as the list of its items\<close>
  "range3 start stop step =
     (if step = 0 then Inl ValueError
      else if 0 < step
      then Inr (map (\<lambda>k. start + int k * step) [0..<nat ((stop - start + step - 1) div step)])
      else Inr (map (\<lambda>k. start + int k * step) [0..<nat ((start - stop - step - 1) div (- step))]))"

definition slice :: "'a list \<Rightarrow> int \<Rightarrow> int \<Rightarrow> 'a list" where
  \<comment> \<open>\<open>xs[i:j]\<close>\<close>
  "slice xs i j =
     (let n = int (length xs);
          lo = (if i < 0 then max (i + n) 0 else min i n);
          hi = (if j < 0 then max (j + n) 0 else min j n)
      in take (nat (hi - lo)) (drop (nat lo) xs))"

definition chunked :: "int list \<Rightarrow> int \<Rightarrow> error + int list list" where
  "chunked xs n =
     (case range3 0 (int (length xs)) n of
        Inl e \<Rightarrow> Inl e
      | Inr starts \<Rightarrow> Inr (map (\<lambda>i. slice xs i (i + n)) starts))"

fun join :: "string \<Rightarrow> string list \<Rightarrow> string" where
  "join sep [] = []"
| "join sep [x] = x"
| "join sep (x # y # ys) = x @ sep @ join sep (y # ys)"

fun primary_name :: "element list \<Rightarrow> string option" where
  \<comment> \<open>the loop over \<open>item.findall("name")\<close>, left at the first element of type primary\<close>
  "primary_name [] = None"
| "primary_name (name_el # rest) =
     (if get_attr name_el ''type'' = Some ''primary'' then get_attr name_el ''value''
      else primary_name rest)"

fun names_of_items :: "env \<Rightarrow> element list \<Rightarrow> (int \<rightharpoonup> string) \<Rightarrow> error + (int \<rightharpoonup> string)" where
  "names_of_items E [] out = Inr out"
| "names_of_items E (item # items) out =
     (case get_attr item ''id'' of
        None \<Rightarrow> names_of_items E items out
      | Some oid \<Rightarrow>
          if oid = [] \<or> \<not> isdigit oid then names_of_items E items out
          else (case py_int E oid of
                  Inl e \<Rightarrow> Inl e
                | Inr gid \<Rightarrow>
                    (case primary_name (findall item ''name'') of
                       None \<Rightarrow> names_of_items E items out
                     | Some primary \<Rightarrow>
                         if primary \<noteq> [] then names_of_items E items (out(gid \<mapsto> primary))
                         else names_of_items E items out)))"

definition thing_params :: "int list \<Rightarrow> (string \<times> param) list" where
  "thing_params ch = [(''id'', PStr (join '','' (map str_int ch))), (''type'', PStr ''boardgame'')]"

fun names_of_chunks ::
  "env \<Rightarrow> string \<Rightarrow> int list list \<Rightarrow> (int \<rightharpoonup> string) \<Rightarrow> world \<Rightarrow> (error + (int \<rightharpoonup> string)) \<times> world" where
  "names_of_chunks E token [] out w = (Inr out, w)"
| "names_of_chunks E token (ch # chs) out w =
     (case http_get_xml_text E BGG_THING_URL token (thing_params ch) 30 25 2 ''bgg-games-js-generator/1.4'' w of
        (Inl e, w1) \<Rightarrow> (Inl e, w1)
      | (Inr xml_text, w1) \<Rightarrow>
          (case fromstring E xml_text of
             Inl e \<Rightarrow> (Inl e, w1)
           | Inr doc \<Rightarrow>
               (case names_of_items E (findall doc ''item'') out of
                  Inl e \<Rightarrow> (Inl e, w1)
                | Inr out1 \<Rightarrow> names_of_chunks E token chs out1 (w1\<lparr>slept := slept w1 @ [2 / 10]\<rparr>))))"

definition fetch_primary_names ::
  "env \<Rightarrow> int list \<Rightarrow> string \<Rightarrow> int \<Rightarrow> world \<Rightarrow> (error + (int \<rightharpoonup> string)) \<times> world" where
  "fetch_primary_names E ids token chunk_size w =
     (case chunked ids chunk_size of
        Inl e \<Rightarrow> (Inl e, w)
      | Inr chs \<Rightarrow> names_of_chunks E token chs Map.empty w)"

section \<open>The aggregator\<close>

text \<open>
  \<open>game_to_owners\<close> is a dict from ids to sets of usernames: an association list with one
  entry per key, in insertion order.
\<close>

type_synonym owners_dict = "(int \<times> string set) list"

fun setdefault_add :: "owners_dict \<Rightarrow> int \<Rightarrow> string \<Rightarrow> owners_dict" where
  \<comment> \<open>\<open>game_to_owners.setdefault(gid, set()).add(username)\<close>\<close>
  "setdefault_add [] gid username = [(gid, {username})]"
| "setdefault_add ((k, s) # d) gid username =
     (if k = gid then (k, insert username s) # d else (k, s) # setdefault_add d gid username)"

fun merge_ids :: "string \<Rightarrow> int list \<Rightarrow> owners_dict \<Rightarrow> owners_dict" where
  \<comment> \<open>\<open>for gid in ids: ...\<close> in \<open>main\<close>\<close>
  "merge_ids username [] d = d"
| "merge_ids username (gid # ids) d = merge_ids username ids (setdefault_add d gid username)"

fun collect_owners ::
  "env \<Rightarrow> string \<Rightarrow> string list \<Rightarrow> owners_dict \<Rightarrow> world \<Rightarrow> (error + owners_dict) \<times> world" where
  \<comment> \<open>\<open>for i, username in enumerate(bgg_users, start=1): ...\<close> in \<open>main\<close>\<close>
  "collect_owners E token [] d w = (Inr d, w)"
| "collect_owners E token (username # rest) d w =
     (case fetch_owned_game_ids_for_user E username token w of
        (Inl e, w1) \<Rightarrow> (Inl e, w1)
      | (Inr ids, w1) \<Rightarrow>
          collect_owners E token rest (merge_ids username ids d) (w1\<lparr>slept := slept w1 @ [3 / 10]\<rparr>))"

section \<open>Records, ordering and the serializer\<close>

record game =
  g_id :: int
  g_name :: string
  g_owners :: "string list"

fun build_games :: "int list \<Rightarrow> (int \<rightharpoonup> string) \<Rightarrow> owners_dict \<Rightarrow> game list \<Rightarrow> error + game list" where
  \<comment> \<open>\<open>for gid in all_ids: ...\<close> in \<open>main\<close>\<close>
  "build_games [] id_to_name d games_out = Inr games_out"
| "build_games (gid # rest) id_to_name d games_out =
     (case id_to_name gid of
        None \<Rightarrow> build_games rest id_to_name d games_out
      | Some nm \<Rightarrow>
          if nm = [] then build_games rest id_to_name d games_out
          else (case map_of d gid of
                  None \<Rightarrow> Inl KeyError
                | Some s \<Rightarrow>
                    build_games rest id_to_name d
                      (games_out @ [\<lparr>g_id = gid, g_name = nm, g_owners = sorted_list_of_set s\<rparr>])))"

definition casefold_char :: "char \<Rightarrow> nat list" where
  \<comment> \<open>full case folding of a code point below 256, as code points\<close>
  "casefold_char c =
     (let n = (of_char c :: nat) in
      if (65 \<le> n \<and> n \<le> 90) \<or> (192 \<le> n \<and> n \<le> 214) \<or> (216 \<le> n \<and> n \<le> 222) then [n + 32]
      else if n = 181 then [956]
      else if n = 223 then [115, 115]
      else [n])"

definition casefold :: "string \<Rightarrow> nat list" where
  "casefold s = concat (map casefold_char s)"

definition game_key :: "game \<Rightarrow> nat list \<times> int" where
  \<comment> \<open>\<open>lambda g: (g["name"].casefold(), g["id"])\<close>\<close>
  "game_key g = (casefold (g_name g), g_id g)"

abbreviation BSL :: char where "BSL \<equiv> CHR 0x5C"
abbreviation DQ :: char where "DQ \<equiv> CHR 0x22"
abbreviation SQ :: char where "SQ \<equiv> CHR 0x27"
abbreviation NL :: char where "NL \<equiv> CHR 0x0A"
abbreviation CR :: char where "CR \<equiv> CHR 0x0D"
abbreviation TAB :: char where "TAB \<equiv> CHR 0x09"

function str_replace :: "string \<Rightarrow> string \<Rightarrow> string \<Rightarrow> string" where
  \<comment> \<open>\<open>s.replace(old, new)\<close>: the occurrences of \<open>old\<close>, leftmost first and not overlapping\<close>
  "str_replace old new [] = (if old = [] then new else [])"
| "str_replace old new (c # cs) =
     (if old = [] then new @ c # str_replace old new cs
      else if take (length old) (c # cs) = old
      then new @ str_replace old new (drop (length old) (c # cs))
      else c # str_replace old new cs)"
  by pat_completeness auto
termination
  by (relation "measure (\<lambda>(old, new, s). length s)") auto

definition js_escape :: "string \<Rightarrow> string" where
  "js_escape s =
     str_replace [TAB] [BSL, CHR ''t'']
       (str_replace [CR] [BSL, CHR ''r'']
         (str_replace [NL] [BSL, CHR ''n'']
           (str_replace [DQ] [BSL, DQ]
             (str_replace [BSL] [BSL, BSL] s))))"

definition game_line :: "game \<Rightarrow> string" where
  "game_line g =
     (let owners_js = join '', '' (map (\<lambda>u. [DQ] @ js_escape u @ [DQ]) (g_owners g)) in
      ''  { id: '' @ str_int (g_id g) @ '', name: '' @ [DQ] @ js_escape (g_name g) @ [DQ]
        @ '', owners: ['' @ owners_js @ ''] },'')"

definition games_js_lines :: "string \<Rightarrow> game list \<Rightarrow> string list" where
  "games_js_lines date games =
     [''// AUTO-GENERATED. DO NOT EDIT.'',
      ''// Generated by generate_games_js.py'',
      ''// generated_at: '' @ date,
      [],
      ''window.GAMES = [''] @ map game_line games @ [''];'', []]"

definition write_games_js :: "env \<Rightarrow> string \<Rightarrow> game list \<Rightarrow> world \<Rightarrow> world" where
  "write_games_js E path games w =
     w\<lparr>files := (files w)(path \<mapsto> join [NL] (games_js_lines (today E) games))\<rparr>"

section \<open>The pipeline up to the sorted record list\<close>

definition main_games :: "env \<Rightarrow> string \<Rightarrow> string list \<Rightarrow> world \<Rightarrow> (error + game list) \<times> world" where
  \<comment> \<open>\<open>main\<close>, from \<open>game_to_owners = {}\<close> to \<open>games_out.sort(...)\<close>\<close>
  "main_games E token bgg_users w =
     (case collect_owners E token bgg_users [] w of
        (Inl e, w1) \<Rightarrow> (Inl e, w1)
      | (Inr game_to_owners, w1) \<Rightarrow>
          (let all_ids = sort (map fst game_to_owners) in
           case fetch_primary_names E all_ids token 20 w1 of
             (Inl e, w2) \<Rightarrow> (Inl e, w2)
           | (Inr id_to_name, w2) \<Rightarrow>
               (case build_games all_ids id_to_name game_to_owners [] of
                  Inl e \<Rightarrow> (Inl e, w2)
                | Inr games_out \<Rightarrow> (Inr (sort_key game_key games_out), w2))))"

section \<open>Parsing users.js\<close>

definition isspace_char :: "char \<Rightarrow> bool" where
  \<comment> \<open>the code points below 256 that are whitespace for \<open>str.strip\<close> and for \<open>\s\<close>\<close>
  "isspace_char c = (let n = (of_char c :: nat) in (9 \<le> n \<and> n \<le> 13) \<or> (28 \<le> n \<and> n \<le> 32) \<or> n = 133 \<or> n = 160)"

definition strip :: "string \<Rightarrow> string" where
  "strip s = rev (dropWhile isspace_char (rev (dropWhile isspace_char s)))"

text \<open>
  The pattern \<open>_USER_ENTRY_RE\<close> is matched by backtracking: each piece of the pattern maps
  the text at the current position to the list of its possible matches, in the order in
  which the matcher tries them, each with the text left after it. The match found at a
  position is the first element of the list.
\<close>

fun rx_body :: "char \<Rightarrow> string \<Rightarrow> (string \<times> string) list" where
  \<comment> \<open>\<open>(?:\\.|(?!\1).)*\<close> where group 1 is the quote \<open>q\<close>: greedy, the escaped pair first\<close>
  "rx_body q [] = [([], [])]"
| "rx_body q [c] = (if c \<noteq> q then [([c], [])] else []) @ [([], [c])]"
| "rx_body q (c # d # t) =
     (if c = BSL then map (\<lambda>(k, r). (c # d # k, r)) (rx_body q t) else [])
     @ (if c \<noteq> q then map (\<lambda>(k, r). (c # k, r)) (rx_body q (d # t)) else [])
     @ [([], c # d # t)]"

fun rx_spaces :: "string \<Rightarrow> string list" where
  \<comment> \<open>\<open>\s*\<close>: greedy\<close>
  "rx_spaces [] = [[]]"
| "rx_spaces (c # s) = (if isspace_char c then rx_spaces s else []) @ [c # s]"

definition rx_char :: "char \<Rightarrow> string \<Rightarrow> string list" where
  "rx_char c s = (case s of [] \<Rightarrow> [] | d # t \<Rightarrow> if d = c then [t] else [])"

definition rx_quoted :: "string \<Rightarrow> (string \<times> string) list" where
  \<comment> \<open>\<open>(['"])(...)\1\<close>: the text between the quotes\<close>
  "rx_quoted s =
     (case s of
        [] \<Rightarrow> []
      | q # s1 \<Rightarrow>
          if q = SQ \<or> q = DQ
          then List.bind (rx_body q s1) (\<lambda>(k, s2). map (\<lambda>s3. (k, s3)) (rx_char q s2))
          else [])"

definition USER_ENTRY_RE :: "string \<Rightarrow> (string \<times> string) list" where
  \<comment> \<open>the group \<open>key\<close> and the text after the match\<close>
  "USER_ENTRY_RE s =
     List.bind (rx_quoted s) (\<lambda>(key, s1).
     List.bind (rx_spaces s1) (\<lambda>s2.
     List.bind (rx_char (CHR '':'') s2) (\<lambda>s3.
     List.bind (rx_spaces s3) (\<lambda>s4.
     map (\<lambda>(val, s5). (key, s5)) (rx_quoted s4)))))"

text \<open>
  \<open>finditer\<close>: the matches from left to right, the search resuming where the last match
  ended. \<open>skip\<close> counts the characters of the current match still to pass.
\<close>

fun finditer_keys :: "nat \<Rightarrow> string \<Rightarrow> string list" where
  "finditer_keys skip [] = []"
| "finditer_keys skip (c # s) =
     (if 0 < skip then finditer_keys (skip - 1) s
      else (case USER_ENTRY_RE (c # s) of
              [] \<Rightarrow> finditer_keys 0 s
            | (key, rest) # _ \<Rightarrow> key # finditer_keys (length s - length rest) s))"

definition utf8_encode :: "string \<Rightarrow> string" where
  \<comment> \<open>\<open>bytes(s, "utf-8")\<close> for code points below 256\<close>
  "utf8_encode s =
     concat (map (\<lambda>c. let n = (of_char c :: nat) in
                       if n < 128 then [c] else [char_of (192 + n div 64), char_of (128 + n mod 64)]) s)"

definition hex_digit :: "char \<Rightarrow> nat option" where
  "hex_digit c =
     (let n = (of_char c :: nat) in
      if 48 \<le> n \<and> n \<le> 57 then Some (n - 48)
      else if 97 \<le> n \<and> n \<le> 102 then Some (n - 87)
      else if 65 \<le> n \<and> n \<le> 70 then Some (n - 55)
      else None)"

definition hex_value :: "string \<Rightarrow> nat option" where
  "hex_value hs =
     (if list_all (\<lambda>c. hex_digit c \<noteq> None) hs
      then Some (foldl (\<lambda>acc c. 16 * acc + the (hex_digit c)) 0 hs) else None)"

definition is_octal :: "char \<Rightarrow> bool" where
  "is_octal c = (let n = (of_char c :: nat) in 48 \<le> n \<and> n \<le> 55)"

definition octal_value :: "string \<Rightarrow> nat" where
  "octal_value ds = foldl (\<lambda>acc c. 8 * acc + (of_char c - 48)) 0 ds"

definition put :: "char \<Rightarrow> error + string \<Rightarrow> error + string" where
  \<comment> \<open>the character \<open>c\<close> in front of the decoded rest\<close>
  "put c r = (case r of Inl e \<Rightarrow> Inl e | Inr s \<Rightarrow> Inr (c # s))"

definition emit :: "nat \<Rightarrow> error + string \<Rightarrow> error + string" where
  \<comment> \<open>the code point \<open>n\<close> of a numeric escape in front of the decoded rest\<close>
  "emit n r = (if 256 \<le> n then Inl Unrepresentable else put (char_of n) r)"

text \<open>
  \<open>bytes.decode("unicode_escape")\<close>, errors strict. Where the decoded text has a code point
  above 255 or depends on the table of character names (\<open>\N{...}\<close>), the outcome is not
  determined by this model and is \<open>Unrepresentable\<close>.
\<close>

function unicode_escape_decode :: "string \<Rightarrow> error + string" where
  "unicode_escape_decode [] = Inr []"
| "unicode_escape_decode [c] = (if c = BSL then Inl UnicodeDecodeError else Inr [c])"
| "unicode_escape_decode (c # e # t) =
     (if c \<noteq> BSL then put c (unicode_escape_decode (e # t))
      else if e = NL then unicode_escape_decode t
      else if e = BSL \<or> e = SQ \<or> e = DQ then put e (unicode_escape_decode t)
      else if e = CHR ''b'' then put (CHR 0x08) (unicode_escape_decode t)
      else if e = CHR ''f'' then put (CHR 0x0C) (unicode_escape_decode t)
      else if e = CHR ''t'' then put TAB (unicode_escape_decode t)
      else if e = CHR ''n'' then put NL (unicode_escape_decode t)
      else if e = CHR ''r'' then put CR (unicode_escape_decode t)
      else if e = CHR ''v'' then put (CHR 0x0B) (unicode_escape_decode t)
      else if e = CHR ''a'' then put (CHR 0x07) (unicode_escape_decode t)
      else if is_octal e
      then emit (octal_value (e # takeWhile is_octal (take 2 t)))
             (unicode_escape_decode (drop (length (takeWhile is_octal (take 2 t))) t))
      else if e = CHR ''x'' \<or> e = CHR ''u'' \<or> e = CHR ''U''
      then (let count = (if e = CHR ''x'' then 2 else if e = CHR ''u'' then 4 else 8) in
            if length t < count then Inl UnicodeDecodeError
            else (case hex_value (take count t) of
                    None \<Rightarrow> Inl UnicodeDecodeError
                  | Some v \<Rightarrow>
                      if 1114111 < v then Inl UnicodeDecodeError
                      else emit v (unicode_escape_decode (drop count t))))
      else if e = CHR ''N''
      then (case t of
              [] \<Rightarrow> Inl UnicodeDecodeError
            | b # nm \<Rightarrow>
                if b = CHR 0x7B \<and> nm \<noteq> [] \<and> hd nm \<noteq> CHR 0x7D \<and> CHR 0x7D \<in> set nm
                then Inl Unrepresentable else Inl UnicodeDecodeError)
      else put BSL (put e (unicode_escape_decode t)))"
  by pat_completeness auto
termination
  by (relation "measure length") auto

definition unescape_js_string :: "string \<Rightarrow> error + string" where
  "unescape_js_string s = unicode_escape_decode (utf8_encode s)"

fun usernames_of_keys :: "string list \<Rightarrow> string list \<Rightarrow> error + string list" where
  \<comment> \<open>\<open>for m in _USER_ENTRY_RE.finditer(txt): ...\<close>\<close>
  "usernames_of_keys [] usernames = Inr usernames"
| "usernames_of_keys (key # keys) usernames =
     (case unescape_js_string key of
        Inl e \<Rightarrow> Inl e
      | Inr s \<Rightarrow>
          (let k = strip s in
           if k \<noteq> [] then usernames_of_keys keys (usernames @ [k])
           else usernames_of_keys keys usernames))"

definition parse_bgg_usernames_from_users_js :: "string \<Rightarrow> world \<Rightarrow> error + string list" where
  "parse_bgg_usernames_from_users_js path w =
     (case files w path of
        None \<Rightarrow> Inl FileNotFoundError
      | Some txt \<Rightarrow>
          (case usernames_of_keys (finditer_keys 0 txt) [] of
             Inl e \<Rightarrow> Inl e
           | Inr usernames \<Rightarrow> Inr (dedupe usernames {} [])))"

section \<open>\<open>main\<close>\<close>

definition path_join :: "string \<Rightarrow> string \<Rightarrow> string" where
  \<comment> \<open>\<open>os.path.join(a, b)\<close> for a relative \<open>b\<close>\<close>
  "path_join a b = (if a = [] \<or> last a = CHR ''/'' then a @ b else a @ ''/'' @ b)"

definition main :: "env \<Rightarrow> world \<Rightarrow> (error + int) \<times> world" where
  "main E w =
     (let repo_root = getcwd E;
          users_path = path_join repo_root ''users.js'';
          out_path = path_join repo_root ''games.js''
      in case getenv E ''BGG_TOKEN'' of
           None \<Rightarrow> (Inr 2, w)
         | Some token \<Rightarrow>
             if token = [] then (Inr 2, w)
             else if files w users_path = None then (Inr 2, w)
             else (case parse_bgg_usernames_from_users_js users_path w of
                     Inl e \<Rightarrow> (Inl e, w)
                   | Inr bgg_users \<Rightarrow>
                       if bgg_users = [] then (Inr 2, w)
                       else (case main_games E token bgg_users w of
                               (Inl e, w1) \<Rightarrow> (Inl e, w1)
                             | (Inr games_out, w1) \<Rightarrow>
                                 (Inr 0, write_games_js E out_path games_out w1))))"

section \<open>Definitions for the statements\<close>

definition owners_of :: "owners_dict \<Rightarrow> int \<Rightarrow> string set" where
  \<comment> \<open>the owners recorded for an id; nobody when the id has no entry\<close>
  "owners_of d gid = (case map_of d gid of None \<Rightarrow> {} | Some s \<Rightarrow> s)"

definition first_seen :: "'a list \<Rightarrow> 'a list" where
  \<comment> \<open>the elements at the positions where a value occurs for the first time, in order\<close>
  "first_seen xs = map (\<lambda>i. xs ! i) (filter (\<lambda>i. xs ! i \<notin> set (take i xs)) [0..<length xs])"

definition objectids_of :: "element \<Rightarrow> string list" where
  \<comment> \<open>the \<open>objectid\<close> attributes of the items of a collection document that pass \<open>isdigit\<close>\<close>
  "objectids_of doc =
     filter isdigit (List.map_filter (\<lambda>item. get_attr item ''objectid'') (findall doc ''item''))"

definition thing_request :: "string \<Rightarrow> int list \<Rightarrow> request" where
  \<comment> \<open>the request of \<open>fetch_primary_names\<close> for one batch\<close>
  "thing_request token ch =
     request_of BGG_THING_URL token (thing_params ch) 30 ''bgg-games-js-generator/1.4''"

definition lookup_batch :: "env \<Rightarrow> string \<Rightarrow> int list \<Rightarrow> world \<Rightarrow> (error + (int \<rightharpoonup> string)) \<times> world" where
  \<comment> \<open>the lookup of one batch on its own: the names found in the answer to its request\<close>
  "lookup_batch E token ch w =
     (case http_get_xml_text E BGG_THING_URL token (thing_params ch) 30 25 2 ''bgg-games-js-generator/1.4'' w of
        (Inl e, w1) \<Rightarrow> (Inl e, w1)
      | (Inr xml_text, w1) \<Rightarrow>
          (case fromstring E xml_text of
             Inl e \<Rightarrow> (Inl e, w1)
           | Inr doc \<Rightarrow>
               (case names_of_items E (findall doc ''item'') Map.empty of
                  Inl e \<Rightarrow> (Inl e, w1)
                | Inr m \<Rightarrow> (Inr m, w1))))"

fun resolve_batches :: "env \<Rightarrow> string \<Rightarrow> int list list \<Rightarrow> world \<Rightarrow> (error + (int \<rightharpoonup> string)) \<times> world" where
  \<comment> \<open>one lookup per batch, in order, a pause after each, the results merged\<close>
  "resolve_batches E token [] w = (Inr Map.empty, w)"
| "resolve_batches E token (ch # chs) w =
     (case lookup_batch E token ch w of
        (Inl e, w1) \<Rightarrow> (Inl e, w1)
      | (Inr m, w1) \<Rightarrow>
          (case resolve_batches E token chs (w1\<lparr>slept := slept w1 @ [2 / 10]\<rparr>) of
             (Inl e, w2) \<Rightarrow> (Inl e, w2)
           | (Inr ms, w2) \<Rightarrow> (Inr (m ++ ms), w2)))"

definition escaped_char :: "char \<Rightarrow> string" where
  \<comment> \<open>the escape of one character: backslash, double quote, newline, carriage return and tab
      become a backslash and a letter or the character itself; the others are kept\<close>
  "escaped_char c =
     (if c = BSL then [BSL, BSL]
      else if c = DQ then [BSL, DQ]
      else if c = NL then [BSL, CHR ''n'']
      else if c = CR then [BSL, CHR ''r'']
      else if c = TAB then [BSL, CHR ''t'']
      else [c])"

fun fetch_all :: "env \<Rightarrow> string \<Rightarrow> string list \<Rightarrow> world \<Rightarrow> (error + int list list) \<times> world" where
  \<comment> \<open>the id lists fetched for the identities, in order, with the pause after each fetch\<close>
  "fetch_all E token [] w = (Inr [], w)"
| "fetch_all E token (username # rest) w =
     (case fetch_owned_game_ids_for_user E username token w of
        (Inl e, w1) \<Rightarrow> (Inl e, w1)
      | (Inr ids, w1) \<Rightarrow>
          (case fetch_all E token rest (w1\<lparr>slept := slept w1 @ [3 / 10]\<rparr>) of
             (Inl e, w2) \<Rightarrow> (Inl e, w2)
           | (Inr idss, w2) \<Rightarrow> (Inr (ids # idss), w2)))"

definition merge_all :: "(string \<times> int list) list \<Rightarrow> owners_dict \<Rightarrow> owners_dict" where
  \<comment> \<open>the merges of the pairs (identity, id list), in order\<close>
  "merge_all ps d = fold (\<lambda>(u, ids). merge_ids u ids) ps d"

definition resolved :: "(int \<rightharpoonup> string) \<Rightarrow> int \<Rightarrow> bool" where
  \<comment> \<open>the id has a non-empty name in the mapping\<close>
  "resolved id_to_name gid = (case id_to_name gid of None \<Rightarrow> False | Some nm \<Rightarrow> nm \<noteq> [])"

definition record_of :: "owners_dict \<Rightarrow> (int \<rightharpoonup> string) \<Rightarrow> int \<Rightarrow> game" where
  "record_of d id_to_name gid =
     \<lparr>g_id = gid, g_name = the (id_to_name gid), g_owners = sorted_list_of_set (owners_of d gid)\<rparr>"


section \<open>Example environments\<close>

definition example_env :: "(nat \<Rightarrow> request \<Rightarrow> error + response) \<Rightarrow> (string \<Rightarrow> error + element) \<Rightarrow> env" where
  "example_env tr parse =
     \<lparr>transport = tr, fromstring = parse, int_max_str_digits = 4300,
      getenv = [''BGG_TOKEN'' \<mapsto> ''secret''], getcwd = ''/repo'', today = ''2026-11-04''\<rparr>"

definition empty_world :: world where
  "empty_world = \<lparr>sent = [], slept = [], files = Map.empty\<rparr>"

definition answer :: "int \<Rightarrow> string \<Rightarrow> error + response" where
  "answer code body = Inr \<lparr>status_code = code, resp_text = body\<rparr>"

definition no_parser :: "string \<Rightarrow> error + element" where
  "no_parser s = Inl ParseError"

definition always_202 :: "nat \<Rightarrow> request \<Rightarrow> error + response" where
  "always_202 i rq = answer 202 []"

definition ready_after :: "nat \<Rightarrow> int \<Rightarrow> string \<Rightarrow> nat \<Rightarrow> request \<Rightarrow> error + response" where
  \<comment> \<open>202 to the first \<open>k\<close> requests, then the given status and body\<close>
  "ready_after k code body i rq = (if i < k then answer 202 [] else answer code body)"

definition parse_as :: "element \<Rightarrow> string \<Rightarrow> error + element" where
  "parse_as doc s = Inr doc"

definition item_with_objectid :: "string \<Rightarrow> element" where
  "item_with_objectid oid = Element ''item'' [(''objecttype'', ''thing''), (''objectid'', oid)] []"

definition items_doc :: "element list \<Rightarrow> element" where
  "items_doc its = Element ''items'' [] its"

definition name_el :: "string \<Rightarrow> string \<Rightarrow> element" where
  "name_el ty v = Element ''name'' [(''type'', ty), (''sortindex'', ''1''), (''value'', v)] []"

definition thing_item :: "string \<Rightarrow> element list \<Rightarrow> element" where
  "thing_item oid names = Element ''item'' [(''type'', ''boardgame''), (''id'', oid)] names"

text \<open>
  The scenario of two identities: amy owns 10, 20 and 30, bo owns 20; the lookup knows
  10 as Catan and 20 as Wingspan, and has no primary name for 30.
\<close>

definition scenario_transport :: "nat \<Rightarrow> request \<Rightarrow> error + response" where
  "scenario_transport i rq =
     (if req_url rq = BGG_COLLECTION_URL
      then (case map_of (req_params rq) ''username'' of
              Some (PStr u) \<Rightarrow> answer 200 u
            | _ \<Rightarrow> answer 404 [])
      else answer 200 ''things'')"

definition scenario_parser :: "string \<Rightarrow> error + element" where
  "scenario_parser s =
     (if s = ''amy''
      then Inr (items_doc [item_with_objectid ''10'', item_with_objectid ''20'', item_with_objectid ''30''])
      else if s = ''bo'' then Inr (items_doc [item_with_objectid ''20''])
      else if s = ''things''
      then Inr (items_doc
             [thing_item ''10'' [name_el ''primary'' ''Catan''],
              thing_item ''20'' [name_el ''alternate'' ''Fluegelschlag'', name_el ''primary'' ''Wingspan''],
              thing_item ''30'' [name_el ''alternate'' ''Promo Pack'']])
      else Inl ParseError)"

definition scenario :: env where
  "scenario = example_env scenario_transport scenario_parser"






section \<open>The shared transport routine: proofs\<close>

lemma http_get_loop_pending:
  "(\<forall>i<k. \<exists>r. transport E (length (sent w) + i) req = Inr r \<and> status_code r = 202) \<Longrightarrow>
   http_get_loop E u m req b (k + n) ls w =
     http_get_loop E u m req b n (if k = 0 then ls else Some 202)
       (w\<lparr>sent := sent w @ replicate k req, slept := slept w @ replicate k b\<rparr>)"
proof (induction k arbitrary: ls w)
  case 0
  then show ?case by simp
next
  case (Suc k)
  from Suc.prems obtain r where r: "transport E (length (sent w)) req = Inr r" "status_code r = 202"
    by force
  let ?w1 = "w\<lparr>sent := sent w @ [req], slept := slept w @ [b]\<rparr>"
  have step: "\<forall>i<k. \<exists>r. transport E (length (sent ?w1) + i) req = Inr r \<and> status_code r = 202"
    using Suc.prems by (auto simp: less_Suc_eq_0_disj)
  have "http_get_loop E u m req b (Suc k + n) ls w = http_get_loop E u m req b (k + n) (Some 202) ?w1"
    using r by (simp add: Let_def)
  also have "\<dots> = http_get_loop E u m req b n (if k = 0 then Some 202 else Some 202)
       (?w1\<lparr>sent := sent ?w1 @ replicate k req, slept := slept ?w1 @ replicate k b\<rparr>)"
    by (rule Suc.IH [OF step])
  finally show ?case
    by (simp add: replicate_append_same)
qed

lemma http_get_loop_answer:
  assumes pending: "\<forall>i<k. \<exists>r. transport E (length (sent w) + i) req = Inr r \<and> status_code r = 202"
    and answer: "transport E (length (sent w) + k) req = Inr r" "status_code r \<noteq> 202"
  shows "http_get_loop E u m req b (k + Suc n) ls w =
     (if 400 \<le> status_code r \<and> status_code r < 600 then Inl (HTTPError (status_code r))
      else Inr (resp_text r),
      w\<lparr>sent := sent w @ replicate (Suc k) req, slept := slept w @ replicate k b\<rparr>)"
proof -
  let ?w = "w\<lparr>sent := sent w @ replicate k req, slept := slept w @ replicate k b\<rparr>"
  have "http_get_loop E u m req b (k + Suc n) ls w =
      http_get_loop E u m req b (Suc n) (if k = 0 then ls else Some 202) ?w"
    by (rule http_get_loop_pending [OF pending])
  also have "\<dots> = (if 400 \<le> status_code r \<and> status_code r < 600 then Inl (HTTPError (status_code r))
      else Inr (resp_text r), ?w\<lparr>sent := sent ?w @ [req]\<rparr>)"
    using answer by (auto simp: Let_def raise_for_status_def)
  finally show ?thesis
    by (simp add: replicate_append_same)
qed

lemma str_int_202: "str_int 202 = ''202''"
  by (simp add: str_int_def str_nat.simps)

lemma http_get_loop_exhausted:
  assumes "\<forall>i<Suc k. \<exists>r. transport E (length (sent w) + i) req = Inr r \<and> status_code r = 202"
  shows "http_get_loop E u m req b (Suc k) ls w =
     (Inl (TimeoutError (u @ '' kept returning 202 after '' @ str_int m @ '' attempts.'')),
      w\<lparr>sent := sent w @ replicate (Suc k) req, slept := slept w @ replicate (Suc k) b\<rparr>)"
  using http_get_loop_pending [OF assms, of u m b 0 ls]
  by (simp add: timeout_message_def str_opt_int_def str_int_202 del: replicate_Suc)

lemma http_get_xml_text_no_attempts:
  "max_attempts \<le> 0 \<Longrightarrow>
   http_get_xml_text E u token ps tmo max_attempts backoff_seconds user_agent w =
     (Inl (TimeoutError (u @ '' kept returning None after '' @ str_int max_attempts @ '' attempts.'')), w)"
  by (simp add: http_get_xml_text_def timeout_message_def str_opt_int_def)

lemma http_get_xml_text_transport_error:
  assumes "int k < max_attempts"
    and "\<forall>i<k. \<exists>r. transport E (length (sent w) + i) (request_of u token ps tmo user_agent) = Inr r
                \<and> status_code r = 202"
    and "transport E (length (sent w) + k) (request_of u token ps tmo user_agent) = Inl e"
  shows "http_get_xml_text E u token ps tmo max_attempts backoff_seconds user_agent w =
     (Inl e, w\<lparr>sent := sent w @ replicate (Suc k) (request_of u token ps tmo user_agent),
               slept := slept w @ replicate k backoff_seconds\<rparr>)"
proof -
  from assms(1) obtain n where n: "nat max_attempts = k + Suc n"
    by (metis add_Suc_right less_imp_Suc_add zless_nat_eq_int_zless)
  show ?thesis
    unfolding http_get_xml_text_def n http_get_loop_pending [OF assms(2)]
    using assms(3) by (simp add: Let_def replicate_append_same)
qed

text \<open>
  C3. Bounded retry. Against a transport that answers 202 to every request,
  \<open>http_get_xml_text\<close> issues exactly \<open>max_attempts\<close> requests and raises the \<open>TimeoutError\<close>
  whose message names the URL and the status 202. Against a transport that answers 202 to
  the first \<open>k < max_attempts\<close> requests and then succeeds, it returns the body of the
  successful response after exactly \<open>k + 1\<close> requests.
\<close>

theorem http_get_xml_text_bounded_retry:
  "(0 < max_attempts \<and> (\<forall>i rq. \<exists>r. transport E i rq = Inr r \<and> status_code r = 202) \<longrightarrow>
      http_get_xml_text E u token ps tmo max_attempts backoff_seconds user_agent w =
        (Inl (TimeoutError (u @ '' kept returning 202 after '' @ str_int max_attempts @ '' attempts.'')),
         w\<lparr>sent := sent w @ replicate (nat max_attempts) (request_of u token ps tmo user_agent),
            slept := slept w @ replicate (nat max_attempts) backoff_seconds\<rparr>)) \<and>
   (int k < max_attempts \<and>
    (\<forall>i<k. \<exists>r. transport E (length (sent w) + i) (request_of u token ps tmo user_agent) = Inr r
                \<and> status_code r = 202) \<and>
    transport E (length (sent w) + k) (request_of u token ps tmo user_agent) = Inr ok \<and>
    status_code ok \<noteq> 202 \<and> raise_for_status ok = Inr () \<longrightarrow>
      http_get_xml_text E u token ps tmo max_attempts backoff_seconds user_agent w =
        (Inr (resp_text ok),
         w\<lparr>sent := sent w @ replicate (k + 1) (request_of u token ps tmo user_agent),
            slept := slept w @ replicate k backoff_seconds\<rparr>))"
proof (intro conjI impI)
  let ?req = "request_of u token ps tmo user_agent"
  assume "0 < max_attempts \<and> (\<forall>i rq. \<exists>r. transport E i rq = Inr r \<and> status_code r = 202)"
  then obtain n where n: "nat max_attempts = Suc n"
    and all: "\<forall>i<Suc n. \<exists>r. transport E (length (sent w) + i) ?req = Inr r \<and> status_code r = 202"
    by (cases "nat max_attempts") auto
  show "http_get_xml_text E u token ps tmo max_attempts backoff_seconds user_agent w =
        (Inl (TimeoutError (u @ '' kept returning 202 after '' @ str_int max_attempts @ '' attempts.'')),
         w\<lparr>sent := sent w @ replicate (nat max_attempts) ?req,
            slept := slept w @ replicate (nat max_attempts) backoff_seconds\<rparr>)"
    unfolding http_get_xml_text_def n by (rule http_get_loop_exhausted [OF all])
next
  let ?req = "request_of u token ps tmo user_agent"
  assume h: "int k < max_attempts \<and>
    (\<forall>i<k. \<exists>r. transport E (length (sent w) + i) ?req = Inr r \<and> status_code r = 202) \<and>
    transport E (length (sent w) + k) ?req = Inr ok \<and>
    status_code ok \<noteq> 202 \<and> raise_for_status ok = Inr ()"
  then obtain n where n: "nat max_attempts = k + Suc n"
    by (metis add_Suc_right less_imp_Suc_add zless_nat_eq_int_zless)
  from h have good: "\<not> (400 \<le> status_code ok \<and> status_code ok < 600)"
    by (auto simp: raise_for_status_def split: if_splits)
  show "http_get_xml_text E u token ps tmo max_attempts backoff_seconds user_agent w =
        (Inr (resp_text ok),
         w\<lparr>sent := sent w @ replicate (k + 1) ?req, slept := slept w @ replicate k backoff_seconds\<rparr>)"
    unfolding http_get_xml_text_def n
    using http_get_loop_answer [of k E w ?req ok u max_attempts backoff_seconds n None] h good
    by simp
qed

theorem http_get_xml_text_bounded_retry_witness:
  "http_get_xml_text (example_env always_202 no_parser) ''u'' ''t'' [] 30 3 2 ''ua'' empty_world =
     (Inl (TimeoutError ''u kept returning 202 after 3 attempts.''),
      \<lparr>sent = replicate 3 (request_of ''u'' ''t'' [] 30 ''ua''), slept = [2, 2, 2], files = Map.empty\<rparr>) \<and>
   http_get_xml_text (example_env (ready_after 2 200 ''<items/>'') no_parser) ''u'' ''t'' [] 30 25 2 ''ua''
       empty_world =
     (Inr ''<items/>'',
      \<lparr>sent = replicate 3 (request_of ''u'' ''t'' [] 30 ''ua''), slept = [2, 2], files = Map.empty\<rparr>)"
proof
  have "str_int 3 = ''3''"
    by (simp add: str_int_def str_nat.simps)
  then show "http_get_xml_text (example_env always_202 no_parser) ''u'' ''t'' [] 30 3 2 ''ua'' empty_world =
     (Inl (TimeoutError ''u kept returning 202 after 3 attempts.''),
      \<lparr>sent = replicate 3 (request_of ''u'' ''t'' [] 30 ''ua''), slept = [2, 2, 2], files = Map.empty\<rparr>)"
    using http_get_xml_text_bounded_retry
      [of 3 "example_env always_202 no_parser" "''u''" "''t''" "[]" 30 2 "''ua''" empty_world,
       THEN conjunct1]
    by (simp add: example_env_def always_202_def answer_def empty_world_def numeral_3_eq_3)
next
  show "http_get_xml_text (example_env (ready_after 2 200 ''<items/>'') no_parser) ''u'' ''t'' [] 30 25 2 ''ua''
       empty_world =
     (Inr ''<items/>'',
      \<lparr>sent = replicate 3 (request_of ''u'' ''t'' [] 30 ''ua''), slept = [2, 2], files = Map.empty\<rparr>)"
    using http_get_xml_text_bounded_retry
      [of 25 "example_env (ready_after 2 200 ''<items/>'') no_parser" "''u''" "''t''" "[]" 30 2 "''ua''"
          empty_world 2 "\<lparr>status_code = 200, resp_text = ''<items/>''\<rparr>", THEN conjunct2]
    by (simp add: example_env_def ready_after_def answer_def empty_world_def raise_for_status_def
        numeral_3_eq_3 numeral_2_eq_2)
qed



section \<open>The aggregator: proofs\<close>

lemma map_of_setdefault_add:
  "map_of (setdefault_add d gid u) k =
     (if k = gid then Some (insert u (owners_of d gid)) else map_of d k)"
  by (induction d gid u rule: setdefault_add.induct) (auto simp: owners_of_def)

lemma keys_setdefault_add:
  "map fst (setdefault_add d gid u) = (if gid \<in> fst ` set d then map fst d else map fst d @ [gid])"
  by (induction d gid u rule: setdefault_add.induct) (auto simp: image_iff)

lemma setdefault_add_again:
  "map_of d gid = Some s \<Longrightarrow> u \<in> s \<Longrightarrow> setdefault_add d gid u = d"
  by (induction d gid u rule: setdefault_add.induct) (auto simp: insert_absorb split: if_splits)

lemma owners_of_setdefault_add:
  "owners_of (setdefault_add d gid u) k = (if k = gid then insert u (owners_of d k) else owners_of d k)"
  by (simp add: owners_of_def map_of_setdefault_add)

lemma owners_of_merge_ids:
  "owners_of (merge_ids u ids d) k = (if k \<in> set ids then insert u (owners_of d k) else owners_of d k)"
  by (induction ids arbitrary: d) (auto simp: owners_of_setdefault_add)

lemma dom_setdefault_add: "fst ` set (setdefault_add d gid u) = insert gid (fst ` set d)"
  by (induction d gid u rule: setdefault_add.induct) auto

lemma dom_merge_ids: "fst ` set (merge_ids u ids d) = set ids \<union> fst ` set d"
  by (induction ids arbitrary: d) (auto simp: dom_setdefault_add)

lemma merge_ids_present:
  "\<forall>g\<in>set ids. \<exists>s. map_of d g = Some s \<and> u \<in> s \<Longrightarrow> merge_ids u ids d = d"
  by (induction ids arbitrary: d) (auto simp: setdefault_add_again)

lemma map_of_merge_ids:
  "map_of (merge_ids u ids d) k =
     (if k \<in> set ids then Some (insert u (owners_of d k)) else map_of d k)"
proof (induction ids arbitrary: d)
  case Nil
  show ?case by simp
next
  case (Cons g ids)
  show ?case
    by (simp add: Cons.IH map_of_setdefault_add owners_of_setdefault_add)
qed

text \<open>
  C6. Merging an identity's id list into the ownership map is a set union: afterwards the
  owners of an id are the owners before, together with the identity when the id is in the
  list. Merging the same list for the same identity a second time changes nothing, and no
  membership is ever removed.
\<close>

theorem merge_ids_union_idempotent:
  "owners_of (merge_ids u ids d) k = owners_of d k \<union> (if k \<in> set ids then {u} else {}) \<and>
   merge_ids u ids (merge_ids u ids d) = merge_ids u ids d \<and>
   owners_of d k \<subseteq> owners_of (merge_ids u ids d) k \<and>
   fst ` set d \<subseteq> fst ` set (merge_ids u ids d)"
proof (intro conjI)
  show "owners_of (merge_ids u ids d) k = owners_of d k \<union> (if k \<in> set ids then {u} else {})"
    by (simp add: owners_of_merge_ids)
  show "merge_ids u ids (merge_ids u ids d) = merge_ids u ids d"
    by (rule merge_ids_present) (simp add: map_of_merge_ids)
  show "owners_of d k \<subseteq> owners_of (merge_ids u ids d) k"
    by (auto simp: owners_of_merge_ids)
  show "fst ` set d \<subseteq> fst ` set (merge_ids u ids d)"
    by (simp add: dom_merge_ids)
qed

theorem merge_ids_union_idempotent_witness:
  "owners_of (merge_ids ''bo'' [20, 30] [(10, {''amy''}), (20, {''amy''})]) 20 = {''amy'', ''bo''} \<and>
   merge_ids ''bo'' [20, 30] (merge_ids ''bo'' [20, 30] [(10, {''amy''}), (20, {''amy''})]) =
     [(10, {''amy''}), (20, {''bo'', ''amy''}), (30, {''bo''})]"
  using merge_ids_union_idempotent [of "''bo''" "[20, 30]" "[(10, {''amy''}), (20, {''amy''})]" 20]
  by (auto simp: owners_of_def)

section \<open>The collection fetcher: proofs\<close>

lemma http_get_xml_text_immediate:
  assumes "transport E (length (sent w)) (request_of u token ps tmo user_agent) = Inr r"
    and "status_code r \<noteq> 202" and "0 < max_attempts"
  shows "http_get_xml_text E u token ps tmo max_attempts backoff_seconds user_agent w =
     (if 400 \<le> status_code r \<and> status_code r < 600 then Inl (HTTPError (status_code r))
      else Inr (resp_text r),
      w\<lparr>sent := sent w @ [request_of u token ps tmo user_agent]\<rparr>)"
proof -
  from assms(3) obtain n where n: "nat max_attempts = 0 + Suc n"
    by (cases "nat max_attempts") auto
  show ?thesis
    unfolding http_get_xml_text_def n
    using http_get_loop_answer [of 0 E w _ r u max_attempts backoff_seconds n None] assms(1,2)
    by simp
qed

lemma dedupe_positions:
  "dedupe xs seen out =
     out @ map (\<lambda>i. xs ! i) (filter (\<lambda>i. xs ! i \<notin> seen \<union> set (take i xs)) [0..<length xs])"
proof (induction xs arbitrary: seen out)
  case Nil
  show ?case by simp
next
  case (Cons x xs)
  have upt: "[0..<length (x # xs)] = 0 # map Suc [0..<length xs]"
    by (simp add: upt_conv_Cons map_Suc_upt del: upt_Suc)
  show ?case
  proof (cases "x \<in> seen")
    case True
    then have "(\<lambda>i. xs ! i \<notin> seen \<and> xs ! i \<noteq> x \<and> xs ! i \<notin> set (take i xs)) =
               (\<lambda>i. xs ! i \<notin> seen \<and> xs ! i \<notin> set (take i xs))"
      by (auto simp: fun_eq_iff)
    with True show ?thesis
      unfolding upt by (simp add: Cons.IH filter_map comp_def)
  next
    case False
    then show ?thesis
      unfolding upt by (simp add: Cons.IH filter_map comp_def conj_ac)
  qed
qed

lemma dedupe_first_seen: "dedupe xs {} [] = first_seen xs"
  by (simp add: dedupe_positions first_seen_def)

lemma dedupe_set: "set (dedupe xs seen out) = set out \<union> (set xs - seen)"
  by (induction xs arbitrary: seen out) auto

lemma dedupe_distinct:
  "distinct out \<Longrightarrow> set out \<subseteq> seen \<Longrightarrow> distinct (dedupe xs seen out)"
proof (induction xs arbitrary: seen out)
  case Nil
  then show ?case by simp
next
  case (Cons x xs)
  show ?case
  proof (cases "x \<in> seen")
    case True
    with Cons show ?thesis by simp
  next
    case False
    with Cons.prems have "distinct (out @ [x])" "set (out @ [x]) \<subseteq> insert x seen"
      by auto
    with False Cons.IH show ?thesis by simp
  qed
qed

lemma first_seen_distinct: "distinct (first_seen xs)"
  using dedupe_distinct [of "[]" "{}" xs] by (simp add: dedupe_first_seen)

lemma first_seen_set: "set (first_seen xs) = set xs"
  using dedupe_set [of xs "{}" "[]"] by (simp add: dedupe_first_seen)

lemma collect_objectids_decimal:
  assumes "\<forall>oid\<in>set (filter isdigit (List.map_filter (\<lambda>item. get_attr item ''objectid'') items)).
             py_int E oid = Inr (int (decimal_value oid))"
  shows "collect_objectids E items ids =
     Inr (ids @ map (\<lambda>oid. int (decimal_value oid))
                  (filter isdigit (List.map_filter (\<lambda>item. get_attr item ''objectid'') items)))"
  using assms
proof (induction items arbitrary: ids)
  case Nil
  show ?case by simp
next
  case (Cons item items)
  show ?case
  proof (cases "get_attr item ''objectid''")
    case None
    with Cons show ?thesis by simp
  next
    case (Some oid)
    with Cons show ?thesis
      by (cases "isdigit oid") (auto simp: isdigit_def)
  qed
qed

lemma py_int_decimal:
  "list_all isdecimal_char oid \<Longrightarrow> oid \<noteq> [] \<Longrightarrow>
   \<not> (0 < int_max_str_digits E \<and> 640 < length oid \<and> int_max_str_digits E < length oid) \<Longrightarrow>
   py_int E oid = Inr (int (decimal_value oid))"
  by (auto simp: py_int_def)

text \<open>
  C4, as amended. When the collection request is answered and the answer parses, and
  every \<open>objectid\<close> that passes \<open>isdigit\<close> is made of the digits 0 to 9 and is within the
  interpreter's limit on the digits of an integer, \<open>fetch_owned_game_ids_for_user\<close> returns
  without error: the items whose \<open>objectid\<close> is missing, empty or fails \<open>isdigit\<close> are
  skipped, the ids returned are the values of the other \<open>objectid\<close>s in the order in which
  each is first seen, they are duplicate-free, and each is a non-negative integer.
\<close>

theorem fetch_owned_game_ids_first_seen_nonneg:
  assumes "http_get_xml_text E BGG_COLLECTION_URL token (collection_params username) 30 25 2
             ''bgg-games-js-generator/1.4'' w = (Inr xml_text, w1)"
    and "fromstring E xml_text = Inr doc"
    and "\<forall>oid\<in>set (objectids_of doc). list_all isdecimal_char oid \<and>
           \<not> (0 < int_max_str_digits E \<and> 640 < length oid \<and> int_max_str_digits E < length oid)"
  shows "fetch_owned_game_ids_for_user E username token w =
           (Inr (first_seen (map (\<lambda>oid. int (decimal_value oid)) (objectids_of doc))), w1) \<and>
         distinct (first_seen (map (\<lambda>oid. int (decimal_value oid)) (objectids_of doc))) \<and>
         (\<forall>gid\<in>set (first_seen (map (\<lambda>oid. int (decimal_value oid)) (objectids_of doc))). 0 \<le> gid)"
proof -
  have "\<forall>oid\<in>set (objectids_of doc). py_int E oid = Inr (int (decimal_value oid))"
    using assms(3) by (auto simp: objectids_of_def isdigit_def intro!: py_int_decimal)
  then have "collect_objectids E (findall doc ''item'') [] =
      Inr (map (\<lambda>oid. int (decimal_value oid)) (objectids_of doc))"
    using collect_objectids_decimal [of "findall doc ''item''" E "[]"]
    by (simp add: objectids_of_def)
  then have "fetch_owned_game_ids_for_user E username token w =
           (Inr (first_seen (map (\<lambda>oid. int (decimal_value oid)) (objectids_of doc))), w1)"
    using assms(1,2) by (simp add: fetch_owned_game_ids_for_user_def dedupe_first_seen)
  then show ?thesis
    by (simp add: first_seen_distinct first_seen_set)
qed


theorem fetch_owned_game_ids_first_seen_nonneg_witness:
  "fetch_owned_game_ids_for_user
     (example_env (ready_after 0 200 ''<items/>'')
        (parse_as (items_doc [item_with_objectid ''20'', Element ''item'' [] [], item_with_objectid ''x1'',
                              item_with_objectid ''10'', item_with_objectid ''20'', item_with_objectid ''007''])))
     ''amy'' ''secret'' empty_world =
   (Inr [20, 10, 7],
    \<lparr>sent = [request_of BGG_COLLECTION_URL ''secret'' (collection_params ''amy'') 30 ''bgg-games-js-generator/1.4''],
     slept = [], files = Map.empty\<rparr>)"
proof -
  let ?doc = "items_doc [item_with_objectid ''20'', Element ''item'' [] [], item_with_objectid ''x1'',
                         item_with_objectid ''10'', item_with_objectid ''20'', item_with_objectid ''007'']"
  let ?E = "example_env (ready_after 0 200 ''<items/>'') (parse_as ?doc)"
  let ?w1 = "\<lparr>sent = [request_of BGG_COLLECTION_URL ''secret'' (collection_params ''amy'') 30 ''bgg-games-js-generator/1.4''],
     slept = [], files = Map.empty\<rparr>"
  have http: "http_get_xml_text ?E BGG_COLLECTION_URL ''secret'' (collection_params ''amy'') 30 25 2
             ''bgg-games-js-generator/1.4'' empty_world = (Inr ''<items/>'', ?w1)"
    using http_get_xml_text_immediate [of ?E empty_world BGG_COLLECTION_URL "''secret''"
        "collection_params ''amy''" 30 "''bgg-games-js-generator/1.4''"
        "\<lparr>status_code = 200, resp_text = ''<items/>''\<rparr>" 25 2]
    by (simp add: example_env_def ready_after_def answer_def empty_world_def)
  have parse: "fromstring ?E ''<items/>'' = Inr ?doc"
    by (simp add: example_env_def parse_as_def)
  have ids: "objectids_of ?doc = [''20'', ''10'', ''20'', ''007'']"
    by code_simp
  have dec: "\<forall>oid\<in>set (objectids_of ?doc). list_all isdecimal_char oid \<and>
           \<not> (0 < int_max_str_digits ?E \<and> 640 < length oid \<and> int_max_str_digits ?E < length oid)"
    unfolding ids by (simp add: isdecimal_char_def example_env_def)
  have val: "first_seen (map (\<lambda>oid. int (decimal_value oid)) [''20'', ''10'', ''20'', ''007'']) = [20, 10, 7]"
    by code_simp
  show ?thesis
    using fetch_owned_game_ids_first_seen_nonneg [OF http parse dec] val
    unfolding ids by simp
qed

lemma fetch_single_objectid:
  "fetch_owned_game_ids_for_user
     (example_env (ready_after 0 200 ''<items/>'') (parse_as (items_doc [item_with_objectid oid])))
     ''amy'' ''secret'' empty_world =
   ((if isdigit oid
     then (case py_int (example_env (ready_after 0 200 ''<items/>'')
                          (parse_as (items_doc [item_with_objectid oid]))) oid of
             Inl e \<Rightarrow> Inl e | Inr v \<Rightarrow> Inr [v])
     else Inr []),
    \<lparr>sent = [request_of BGG_COLLECTION_URL ''secret'' (collection_params ''amy'') 30 ''bgg-games-js-generator/1.4''],
     slept = [], files = Map.empty\<rparr>)"
proof -
  let ?E = "example_env (ready_after 0 200 ''<items/>'') (parse_as (items_doc [item_with_objectid oid]))"
  let ?w1 = "\<lparr>sent = [request_of BGG_COLLECTION_URL ''secret'' (collection_params ''amy'') 30 ''bgg-games-js-generator/1.4''],
     slept = [], files = Map.empty\<rparr>"
  have http: "http_get_xml_text ?E BGG_COLLECTION_URL ''secret'' (collection_params ''amy'') 30 25 2
             ''bgg-games-js-generator/1.4'' empty_world = (Inr ''<items/>'', ?w1)"
    using http_get_xml_text_immediate [of ?E empty_world BGG_COLLECTION_URL "''secret''"
        "collection_params ''amy''" 30 "''bgg-games-js-generator/1.4''"
        "\<lparr>status_code = 200, resp_text = ''<items/>''\<rparr>" 25 2]
    by (simp add: example_env_def ready_after_def answer_def empty_world_def)
  have parse: "fromstring ?E ''<items/>'' = Inr (items_doc [item_with_objectid oid])"
    by (simp add: example_env_def parse_as_def)
  have collect: "collect_objectids ?E (findall (items_doc [item_with_objectid oid]) ''item'') [] =
      (if isdigit oid then (case py_int ?E oid of Inl e \<Rightarrow> Inl e | Inr v \<Rightarrow> Inr [v]) else Inr [])"
    by (auto simp: items_doc_def item_with_objectid_def findall_def get_attr_def isdigit_def
        split: sum.splits)
  show ?thesis
    unfolding fetch_owned_game_ids_for_user_def http
    by (simp add: parse collect split: sum.splits)
qed

text \<open>
  C4, as stated, fails: an item whose \<open>objectid\<close> is \<open>0\<close> passes \<open>isdigit\<close>, and the id 0,
  which is not positive, is returned.
\<close>

theorem fetch_owned_game_ids_zero_counterexample:
  "fst (fetch_owned_game_ids_for_user
          (example_env (ready_after 0 200 ''<items/>'') (parse_as (items_doc [item_with_objectid ''0''])))
          ''amy'' ''secret'' empty_world) = Inr [0]"
  unfolding fetch_single_objectid
  by (simp add: isdigit_def isdigit_char_def py_int_def isdecimal_char_def decimal_value_def example_env_def)

text \<open>
  An \<open>objectid\<close> made of a superscript digit (code point 178) passes \<open>isdigit\<close> but is no
  decimal digit: \<open>int\<close> raises, and the item is not skipped.
\<close>

lemma fetch_owned_game_ids_superscript_raises:
  "fst (fetch_owned_game_ids_for_user
          (example_env (ready_after 0 200 ''<items/>'') (parse_as (items_doc [item_with_objectid [CHR 0xB2]])))
          ''amy'' ''secret'' empty_world) = Inl ValueError"
  unfolding fetch_single_objectid
  by (simp add: isdigit_def isdigit_char_def py_int_def isdecimal_char_def example_env_def)

section \<open>The name resolver: proofs\<close>

lemma slice_window:
  "0 \<le> i \<Longrightarrow> 0 \<le> n \<Longrightarrow> slice xs i (i + n) = take (nat n) (drop (nat i) xs)"
  by (auto simp: slice_def Let_def min_def)

lemma range3_up:
  "0 < n \<Longrightarrow> range3 0 (int len) n = Inr (map (\<lambda>k. int (k * nat n)) [0..<(len + nat n - 1) div nat n])"
proof -
  assume n: "0 < n"
  then obtain b where b: "n = int b" "0 < b"
    by (metis nat_0_le less_imp_le zero_less_nat_eq)
  have "(int len + int b - 1) div int b = int ((len + b - 1) div b)"
    using b(2) by (simp add: zdiv_int of_nat_diff)
  then show ?thesis
    using b by (simp add: range3_def)
qed

lemma chunked_windows:
  assumes "0 < n"
  shows "chunked xs n =
     Inr (map (\<lambda>k. take (nat n) (drop (k * nat n) xs)) [0..<(length xs + nat n - 1) div nat n])"
  using assms by (simp add: chunked_def range3_up slice_window comp_def nat_mult_distrib)

lemma concat_windows:
  "concat (map (\<lambda>k. take b (drop (k * b) xs)) [0..<m]) = take (m * b) xs"
proof (induction m)
  case 0
  show ?case by simp
next
  case (Suc m)
  have "take (m * b) xs @ take b (drop (m * b) xs) = take (m * b + b) xs"
    by (simp add: take_add)
  with Suc show ?case by (simp add: add.commute)
qed

lemma ceil_div_covers: "0 < b \<Longrightarrow> len \<le> ((len + b - 1) div b) * (b::nat)"
proof -
  assume b: "0 < b"
  have "len + b - 1 = ((len + b - 1) div b) * b + (len + b - 1) mod b"
    by simp
  moreover have "(len + b - 1) mod b \<le> b - 1"
    using b by (simp add: less_Suc_eq_le [symmetric])
  ultimately show ?thesis
    using b by linarith
qed

lemma ceil_div_window: "0 < b \<Longrightarrow> k < (len + b - 1) div b \<Longrightarrow> k * b < (len::nat)"
proof -
  assume b: "0 < b" and k: "k < (len + b - 1) div b"
  then have "Suc k \<le> (len + b - 1) div b" by simp
  then have "Suc k * b \<le> len + b - 1"
    using b by (simp add: less_eq_div_iff_mult_less_eq)
  then show ?thesis using b by simp
qed

lemma chunked_partition:
  assumes "0 < n"
  shows "\<exists>chs. chunked xs n = Inr chs \<and> length chs = (length xs + nat n - 1) div nat n \<and>
           (\<forall>c\<in>set chs. c \<noteq> [] \<and> int (length c) \<le> n) \<and> concat chs = xs"
proof -
  let ?b = "nat n"
  let ?m = "(length xs + ?b - 1) div ?b"
  let ?chs = "map (\<lambda>k. take ?b (drop (k * ?b) xs)) [0..<?m]"
  have b: "0 < ?b" using assms by simp
  have "chunked xs n = Inr ?chs"
    by (rule chunked_windows [OF assms])
  moreover have "length ?chs = ?m" by simp
  moreover have "\<forall>c\<in>set ?chs. c \<noteq> [] \<and> int (length c) \<le> n"
  proof
    fix c
    assume "c \<in> set ?chs"
    then obtain k where k: "k < ?m" and c: "c = take ?b (drop (k * ?b) xs)"
      by auto
    from ceil_div_window [OF b k] have "k * ?b < length xs" .
    with b c assms show "c \<noteq> [] \<and> int (length c) \<le> n"
      by auto
  qed
  moreover have "concat ?chs = xs"
    using ceil_div_covers [OF b, of "length xs"] by (simp add: concat_windows)
  ultimately show ?thesis by blast
qed

lemma names_of_items_from_empty:
  "names_of_items E items out =
     (case names_of_items E items Map.empty of Inl e \<Rightarrow> Inl e | Inr m \<Rightarrow> Inr (out ++ m))"
proof (induction items arbitrary: out)
  case Nil
  show ?case by simp
next
  case (Cons item items)
  have upd: "\<And>gid p. names_of_items E items (out(gid \<mapsto> p)) =
      (case names_of_items E items [gid \<mapsto> p] of Inl e \<Rightarrow> Inl e | Inr m \<Rightarrow> Inr (out ++ m))"
  proof -
    fix gid p
    have "names_of_items E items (out(gid \<mapsto> p)) =
        (case names_of_items E items Map.empty of Inl e \<Rightarrow> Inl e | Inr m \<Rightarrow> Inr (out(gid \<mapsto> p) ++ m))"
      by (rule Cons.IH)
    moreover have "names_of_items E items [gid \<mapsto> p] =
        (case names_of_items E items Map.empty of Inl e \<Rightarrow> Inl e | Inr m \<Rightarrow> Inr ([gid \<mapsto> p] ++ m))"
      by (rule Cons.IH)
    moreover have "\<And>m. out(gid \<mapsto> p) ++ m = out ++ ([gid \<mapsto> p] ++ m)"
      by (simp add: map_add_assoc [symmetric])
    ultimately show "names_of_items E items (out(gid \<mapsto> p)) =
      (case names_of_items E items [gid \<mapsto> p] of Inl e \<Rightarrow> Inl e | Inr m \<Rightarrow> Inr (out ++ m))"
      by (simp split: sum.splits)
  qed
  show ?case
    by (simp add: upd Cons.IH [of out] split: option.splits sum.splits)
qed

lemma names_of_chunks_resolve_batches:
  "names_of_chunks E token chs out w =
     (case resolve_batches E token chs w of
        (Inl e, w1) \<Rightarrow> (Inl e, w1)
      | (Inr ms, w1) \<Rightarrow> (Inr (out ++ ms), w1))"
proof (induction chs arbitrary: out w)
  case Nil
  show ?case by simp
next
  case (Cons ch chs)
  show ?case
    by (simp add: lookup_batch_def Cons.IH names_of_items_from_empty [of E _ out] map_add_assoc
        split: prod.splits sum.splits)
qed


lemma http_get_loop_sent:
  "http_get_loop E u m req b n ls w = (r, w1) \<Longrightarrow>
   \<exists>k\<le>n. sent w1 = sent w @ replicate k req \<and> (\<forall>t. r = Inr t \<longrightarrow> 1 \<le> k)"
proof (induction n arbitrary: ls w)
  case 0
  then show ?case by auto
next
  case (Suc n)
  show ?case
  proof (cases "transport E (length (sent w)) req")
    case (Inl e)
    with Suc.prems have "sent w1 = sent w @ replicate 1 req" "r = Inl e"
      by (auto simp: Let_def)
    then show ?thesis by (intro exI [of _ 1]) simp
  next
    case (Inr resp)
    show ?thesis
    proof (cases "status_code resp = 202")
      case True
      let ?w = "w\<lparr>sent := sent w @ [req], slept := slept w @ [b]\<rparr>"
      from Suc.prems Inr True have "http_get_loop E u m req b n (Some 202) ?w = (r, w1)"
        by (simp add: Let_def)
      from Suc.IH [OF this] obtain k where k: "k \<le> n" "sent w1 = sent ?w @ replicate k req"
        by blast
      then have "sent w1 = sent w @ replicate (Suc k) req"
        by (simp add: replicate_app_Cons_same)
      with k(1) show ?thesis by (intro exI [of _ "Suc k"]) simp
    next
      case False
      with Suc.prems Inr have "sent w1 = sent w @ replicate 1 req"
        by (auto simp: Let_def split: sum.splits)
      then show ?thesis by (intro exI [of _ 1]) simp
    qed
  qed
qed

lemma lookup_batch_sent:
  assumes "lookup_batch E token ch w = (r, w1)"
  shows "\<exists>k\<le>25. sent w1 = sent w @ replicate k (thing_request token ch) \<and> (\<forall>m. r = Inr m \<longrightarrow> 1 \<le> k)"
proof -
  obtain r0 w0 where h: "http_get_xml_text E BGG_THING_URL token (thing_params ch) 30 25 2
      ''bgg-games-js-generator/1.4'' w = (r0, w0)"
    by (cases "http_get_xml_text E BGG_THING_URL token (thing_params ch) 30 25 2
      ''bgg-games-js-generator/1.4'' w") auto
  from assms h have w: "w1 = w0" and r: "\<And>m. r = Inr m \<Longrightarrow> \<exists>t. r0 = Inr t"
    by (auto simp: lookup_batch_def split: sum.splits)
  from h http_get_loop_sent [of E BGG_THING_URL 25 "thing_request token ch" 2 25 None w r0 w0]
  obtain k where "k \<le> 25" "sent w0 = sent w @ replicate k (thing_request token ch)"
      "\<forall>t. r0 = Inr t \<longrightarrow> 1 \<le> k"
    by (auto simp: http_get_xml_text_def thing_request_def)
  with w r show ?thesis by blast
qed

lemma http_get_xml_text_no_202:
  assumes "\<forall>i rq r. transport E i rq = Inr r \<longrightarrow> status_code r \<noteq> 202"
    and "0 < max_attempts"
    and "http_get_xml_text E u token ps tmo max_attempts b ua w = (r, w1)"
  shows "w1 = w\<lparr>sent := sent w @ [request_of u token ps tmo ua]\<rparr>"
proof -
  from assms(2) obtain n where n: "nat max_attempts = Suc n"
    by (cases "nat max_attempts") auto
  show ?thesis
    using assms(1,3) unfolding http_get_xml_text_def n
    by (auto simp: Let_def split: sum.splits if_splits)
qed

lemma resolve_batches_no_202:
  assumes "\<forall>i rq r. transport E i rq = Inr r \<longrightarrow> status_code r \<noteq> 202"
  shows "resolve_batches E token chs w = (Inr ms, w1) \<Longrightarrow>
     w1 = w\<lparr>sent := sent w @ map (thing_request token) chs,
            slept := slept w @ replicate (length chs) (2 / 10)\<rparr>"
proof (induction chs arbitrary: w ms)
  case Nil
  then show ?case by simp
next
  case (Cons ch chs)
  from Cons.prems obtain m wa where a: "lookup_batch E token ch w = (Inr m, wa)"
    by (auto split: prod.splits sum.splits)
  with Cons.prems obtain ms' where
    b: "resolve_batches E token chs (wa\<lparr>slept := slept wa @ [2 / 10]\<rparr>) = (Inr ms', w1)"
    by (auto split: prod.splits sum.splits)
  from a obtain t where "http_get_xml_text E BGG_THING_URL token (thing_params ch) 30 25 2
      ''bgg-games-js-generator/1.4'' w = (Inr t, wa)"
    by (auto simp: lookup_batch_def split: prod.splits sum.splits)
  from http_get_xml_text_no_202 [OF assms _ this]
  have wa: "wa = w\<lparr>sent := sent w @ [thing_request token ch]\<rparr>"
    by (simp add: thing_request_def)
  show ?case
    using Cons.IH [OF b] by (simp add: wa replicate_append_same)
qed

lemma ceil_div_ceiling:
  assumes "0 < b"
  shows "int ((len + b - 1) div b) = \<lceil>real len / real b\<rceil>"
proof -
  let ?m = "(len + b - 1) div b"
  have "len \<le> ?m * b"
    by (rule ceil_div_covers [OF assms])
  then have "real len \<le> real ?m * real b"
    by (metis of_nat_mult of_nat_le_iff)
  then have up: "real len / real b \<le> real ?m"
    using assms by (simp add: pos_divide_le_eq)
  have lo: "real ?m - 1 < real len / real b"
  proof (cases ?m)
    case 0
    have "0 \<le> real len / real b" by simp
    then have "- 1 < real len / real b" by linarith
    with 0 show ?thesis by simp
  next
    case (Suc k)
    then have "k * b < len"
      using ceil_div_window [OF assms, of k len] by simp
    then have "real k * real b < real len"
      by (metis of_nat_mult of_nat_less_iff)
    then show ?thesis
      using assms Suc by (simp add: pos_less_divide_eq)
  qed
  show ?thesis
    using ceiling_unique [of "int ?m" "real len / real b"] lo up by simp
qed

text \<open>
  C5, as amended. For a batch size \<open>B > 0\<close> the \<open>N\<close> ids are cut into \<open>ceil(N/B)\<close> batches,
  none empty and none longer than \<open>B\<close>, whose concatenation is the list of ids. The
  resolver makes one lookup per batch, in order, and its result is the per-batch results
  merged in that order (for an id named by two batches the later name stands). A lookup
  sends nothing but the request of its batch: once, and once more after each 202 answer,
  at most 25 times. So when no answer is 202 and the resolver returns, it has issued
  exactly one request per batch.
\<close>

theorem fetch_primary_names_batches:
  assumes "0 < chunk_size"
  shows "\<exists>chs. chunked ids chunk_size = Inr chs \<and>
           int (length chs) = \<lceil>real (length ids) / real_of_int chunk_size\<rceil> \<and>
           (\<forall>c\<in>set chs. c \<noteq> [] \<and> int (length c) \<le> chunk_size) \<and>
           concat chs = ids \<and>
           fetch_primary_names E ids token chunk_size w = resolve_batches E token chs w \<and>
           (\<forall>ch w0 r w1. lookup_batch E token ch w0 = (r, w1) \<longrightarrow>
              (\<exists>k\<le>25. sent w1 = sent w0 @ replicate k (thing_request token ch) \<and>
                       (\<forall>m. r = Inr m \<longrightarrow> 1 \<le> k))) \<and>
           ((\<forall>i rq r. transport E i rq = Inr r \<longrightarrow> status_code r \<noteq> 202) \<longrightarrow>
            (\<forall>ms w1. fetch_primary_names E ids token chunk_size w = (Inr ms, w1) \<longrightarrow>
               sent w1 = sent w @ map (thing_request token) chs))"
proof -
  from chunked_partition [OF assms, of ids] obtain chs where
    chs: "chunked ids chunk_size = Inr chs"
      "length chs = (length ids + nat chunk_size - 1) div nat chunk_size"
      "\<forall>c\<in>set chs. c \<noteq> [] \<and> int (length c) \<le> chunk_size" "concat chs = ids"
    by blast
  have len: "int (length chs) = \<lceil>real (length ids) / real_of_int chunk_size\<rceil>"
    using ceil_div_ceiling [of "nat chunk_size" "length ids"] assms chs(2) by simp
  have eq: "fetch_primary_names E ids token chunk_size w = resolve_batches E token chs w"
    by (simp add: fetch_primary_names_def chs(1) names_of_chunks_resolve_batches
        split: prod.splits sum.splits)
  have one: "\<forall>ch w0 r w1. lookup_batch E token ch w0 = (r, w1) \<longrightarrow>
              (\<exists>k\<le>25. sent w1 = sent w0 @ replicate k (thing_request token ch) \<and>
                       (\<forall>m. r = Inr m \<longrightarrow> 1 \<le> k))"
    using lookup_batch_sent by blast
  have quiet: "(\<forall>i rq r. transport E i rq = Inr r \<longrightarrow> status_code r \<noteq> 202) \<longrightarrow>
            (\<forall>ms w1. fetch_primary_names E ids token chunk_size w = (Inr ms, w1) \<longrightarrow>
               sent w1 = sent w @ map (thing_request token) chs)"
    unfolding eq using resolve_batches_no_202 [of E token chs w] by fastforce
  from chs(1,3,4) len eq one quiet show ?thesis by blast
qed

theorem fetch_primary_names_batches_witness:
  "chunked [10, 20, 30] 2 = Inr [[10, 20], [30]] \<and>
   int (length [[10, 20], [30::int]]) = \<lceil>real (length [10, 20, 30::int]) / real_of_int 2\<rceil> \<and>
   sent (snd (fetch_primary_names scenario [10, 20, 30] ''secret'' 2 empty_world)) =
     [thing_request ''secret'' [10, 20], thing_request ''secret'' [30]]"
proof -
  have quiet: "\<forall>i rq r. transport scenario i rq = Inr r \<longrightarrow> status_code r \<noteq> 202"
    by (auto simp: scenario_def example_env_def scenario_transport_def answer_def
        split: option.splits param.splits if_splits)
  have "(case fetch_primary_names scenario [10, 20, 30] ''secret'' 2 empty_world of
          (Inr ms, w1) \<Rightarrow> True | _ \<Rightarrow> False)"
    by code_simp
  then obtain ms w1 where
    run: "fetch_primary_names scenario [10, 20, 30] ''secret'' 2 empty_world = (Inr ms, w1)"
    by (auto split: prod.splits sum.splits)
  have chunks: "chunked [10, 20, 30] 2 = Inr [[10, 20], [30]]"
    by code_simp
  from fetch_primary_names_batches [of 2 "[10, 20, 30]" scenario "''secret''" empty_world]
  obtain chs where chs: "chunked [10, 20, 30] 2 = Inr chs"
    "int (length chs) = \<lceil>real (length [10, 20, 30::int]) / real_of_int 2\<rceil>"
    "(\<forall>i rq r. transport scenario i rq = Inr r \<longrightarrow> status_code r \<noteq> 202) \<longrightarrow>
       (\<forall>ms w1. fetch_primary_names scenario [10, 20, 30] ''secret'' 2 empty_world = (Inr ms, w1) \<longrightarrow>
          sent w1 = sent empty_world @ map (thing_request ''secret'') chs)"
    by auto
  from chs(1) chunks have c: "chs = [[10, 20], [30]]" by simp
  from chs(3) quiet run have "sent w1 = sent empty_world @ map (thing_request ''secret'') chs"
    by blast
  with run chs(2) chunks show ?thesis
    unfolding c by (simp add: empty_world_def)
qed

text \<open>
  C5, as stated, fails: when the service answers 202 once before the lookup is ready, the
  single batch of one id costs two requests.
\<close>

theorem fetch_primary_names_retry_counterexample:
  "chunked [10] 20 = Inr [[10]] \<and>
   sent (snd (fetch_primary_names (example_env (ready_after 1 200 ''things'') scenario_parser)
                [10] ''secret'' 20 empty_world)) =
     [thing_request ''secret'' [10], thing_request ''secret'' [10]]"
  by code_simp

section \<open>The serializer: proofs\<close>

lemma str_replace_char:
  "str_replace [c] new s = concat (map (\<lambda>x. if x = c then new else [x]) s)"
  by (induction s) auto

lemma concat_map_concat_map:
  "concat (map f (concat (map g s))) = concat (map (\<lambda>x. concat (map f (g x))) s)"
  by (induction s) auto

lemma js_escape_chars: "js_escape s = concat (map escaped_char s)"
proof -
  let ?r1 = "\<lambda>x. if x = BSL then [BSL, BSL] else [x]"
  let ?r2 = "\<lambda>x. if x = DQ then [BSL, DQ] else [x]"
  let ?r3 = "\<lambda>x. if x = NL then [BSL, CHR ''n''] else [x]"
  let ?r4 = "\<lambda>x. if x = CR then [BSL, CHR ''r''] else [x]"
  let ?r5 = "\<lambda>x. if x = TAB then [BSL, CHR ''t''] else [x]"
  have "\<And>x. concat (map ?r5 (concat (map ?r4 (concat (map ?r3 (concat (map ?r2 (?r1 x)))))))) =
      escaped_char x"
    by (simp add: escaped_char_def)
  then show ?thesis
    by (simp add: js_escape_def str_replace_char concat_map_concat_map)
qed

lemma js_escape_no_control:
  "NL \<notin> set (js_escape s) \<and> CR \<notin> set (js_escape s) \<and> TAB \<notin> set (js_escape s)"
  by (auto simp: js_escape_chars escaped_char_def split: if_splits)

lemma str_nat_digits: "set (str_nat n) \<subseteq> set ''0123456789''"
proof (induction n rule: str_nat.induct)
  case (1 n)
  have digit: "\<And>k. k < 10 \<Longrightarrow> ''0123456789'' ! k \<in> set ''0123456789''"
    by (rule nth_mem) simp
  show ?case
  proof (cases "n < 10")
    case True
    with digit [of n] show ?thesis by (subst str_nat.simps) simp
  next
    case False
    have "n mod 10 < 10" by simp
    from digit [OF this] "1.IH" False show ?thesis
      by (subst str_nat.simps) simp
  qed
qed

lemma str_int_no_newline: "NL \<notin> set (str_int i)"
  using str_nat_digits [of "nat i"] str_nat_digits [of "nat (- i)"]
  by (auto simp: str_int_def)

lemma join_no_newline:
  "NL \<notin> set sep \<Longrightarrow> \<forall>x\<in>set xs. NL \<notin> set x \<Longrightarrow> NL \<notin> set (join sep xs)"
  by (induction sep xs rule: join.induct) auto

lemma game_line_no_newline: "NL \<notin> set (game_line g)"
proof -
  have "NL \<notin> set (join '', '' (map (\<lambda>u. [DQ] @ js_escape u @ [DQ]) (g_owners g)))"
    by (rule join_no_newline) (auto simp: js_escape_no_control)
  moreover have "NL \<notin> set (str_int (g_id g))" "NL \<notin> set (js_escape (g_name g))"
    by (simp_all add: js_escape_no_control str_int_no_newline)
  ultimately show ?thesis
    by (simp add: game_line_def Let_def)
qed

text \<open>
  C9. The text written by \<open>write_games_js\<close> is a function of the record list and of the
  date alone: its lines, joined by newlines, are the same for two dates except for the
  third, which carries the date. The line of a record holds no newline of its own, and it
  renders the name and every owner with each backslash, double quote, newline, carriage
  return and tab replaced by its escape.
\<close>

theorem write_games_js_deterministic_escaped:
  "files (write_games_js E path games w) path = Some (join [NL] (games_js_lines (today E) games)) \<and>
   (games_js_lines d1 games)[2 := l] = (games_js_lines d2 games)[2 := l] \<and>
   games_js_lines d1 games ! 2 = ''// generated_at: '' @ d1 \<and>
   drop 5 (games_js_lines d1 games) = map game_line games @ [''];'', []] \<and>
   game_line g =
     ''  { id: '' @ str_int (g_id g) @ '', name: '' @ [DQ] @ concat (map escaped_char (g_name g)) @ [DQ]
       @ '', owners: ['' @ join '', '' (map (\<lambda>u. [DQ] @ concat (map escaped_char u) @ [DQ]) (g_owners g))
       @ ''] },'' \<and>
   NL \<notin> set (game_line g) \<and>
   js_escape s = concat (map escaped_char s)"
proof (intro conjI)
  show "files (write_games_js E path games w) path = Some (join [NL] (games_js_lines (today E) games))"
    by (simp add: write_games_js_def)
  show "(games_js_lines d1 games)[2 := l] = (games_js_lines d2 games)[2 := l]"
    by (simp add: games_js_lines_def)
  show "games_js_lines d1 games ! 2 = ''// generated_at: '' @ d1"
    by (simp add: games_js_lines_def)
  show "drop 5 (games_js_lines d1 games) = map game_line games @ [''];'', []]"
    by (simp add: games_js_lines_def)
  show "game_line g =
     ''  { id: '' @ str_int (g_id g) @ '', name: '' @ [DQ] @ concat (map escaped_char (g_name g)) @ [DQ]
       @ '', owners: ['' @ join '', '' (map (\<lambda>u. [DQ] @ concat (map escaped_char u) @ [DQ]) (g_owners g))
       @ ''] },''"
    by (simp add: game_line_def Let_def js_escape_chars)
  show "NL \<notin> set (game_line g)"
    by (rule game_line_no_newline)
  show "js_escape s = concat (map escaped_char s)"
    by (rule js_escape_chars)
qed

theorem write_games_js_deterministic_escaped_witness:
  "games_js_lines ''2026-11-04'' [\<lparr>g_id = 10, g_name = [CHR ''a'', BSL, DQ, NL, CR, TAB], g_owners = [''amy'', ''bo'']\<rparr>] ! 5 =
     ''  { id: 10, name: '' @ [DQ, CHR ''a'', BSL, BSL, BSL, DQ, BSL, CHR ''n'', BSL, CHR ''r'', BSL, CHR ''t'', DQ]
       @ '', owners: ['' @ [DQ] @ ''amy'' @ [DQ] @ '', '' @ [DQ] @ ''bo'' @ [DQ] @ ''] },''"
proof -
  let ?g = "\<lparr>g_id = 10, g_name = [CHR ''a'', BSL, DQ, NL, CR, TAB], g_owners = [''amy'', ''bo'']\<rparr>"
  have ten: "str_int 10 = ''10''"
    by (simp add: str_int_def str_nat.simps)
  from write_games_js_deterministic_escaped [of scenario "''/repo/games.js''" "[?g]" empty_world
      "''2026-11-04''" "[]" "''2027-01-01''" ?g "[]"]
  have "drop 5 (games_js_lines ''2026-11-04'' [?g]) = map game_line [?g] @ [''];'', []]"
    and "game_line ?g =
     ''  { id: '' @ str_int (g_id ?g) @ '', name: '' @ [DQ] @ concat (map escaped_char (g_name ?g)) @ [DQ]
       @ '', owners: ['' @ join '', '' (map (\<lambda>u. [DQ] @ concat (map escaped_char u) @ [DQ]) (g_owners ?g))
       @ ''] },''"
    by blast+
  moreover have "games_js_lines ''2026-11-04'' [?g] ! 5 = hd (drop 5 (games_js_lines ''2026-11-04'' [?g]))"
    by (simp add: games_js_lines_def)
  ultimately show ?thesis
    by (simp add: ten escaped_char_def)
qed

section \<open>The pipeline: proofs\<close>

lemma collect_owners_fetch_all:
  "collect_owners E token us d w =
     (case fetch_all E token us w of
        (Inl e, w1) \<Rightarrow> (Inl e, w1)
      | (Inr idss, w1) \<Rightarrow> (Inr (merge_all (zip us idss) d), w1))"
proof (induction us arbitrary: d w)
  case Nil
  show ?case by (simp add: merge_all_def)
next
  case (Cons u us)
  show ?case
    by (simp add: Cons.IH merge_all_def split: prod.splits sum.splits)
qed

lemma fetch_all_length:
  "fetch_all E token us w = (Inr idss, w1) \<Longrightarrow> length idss = length us"
proof (induction us arbitrary: w idss)
  case Nil
  then show ?case by simp
next
  case (Cons u us)
  then show ?case
    by (auto split: prod.splits sum.splits)
qed

lemma owners_of_merge_all:
  "owners_of (merge_all ps d) g = owners_of d g \<union> {u. \<exists>ids. (u, ids) \<in> set ps \<and> g \<in> set ids}"
proof (induction ps arbitrary: d)
  case Nil
  show ?case by (simp add: merge_all_def)
next
  case (Cons p ps)
  obtain u ids where p: "p = (u, ids)" by (cases p)
  have "merge_all (p # ps) d = merge_all ps (merge_ids u ids d)"
    by (simp add: merge_all_def p)
  then show ?case
    using Cons.IH [of "merge_ids u ids d"] by (auto simp: p owners_of_merge_ids split: if_splits)
qed

lemma keys_merge_all:
  "fst ` set (merge_all ps d) = fst ` set d \<union> (\<Union>(u, ids)\<in>set ps. set ids)"
proof (induction ps arbitrary: d)
  case Nil
  show ?case by (simp add: merge_all_def)
next
  case (Cons p ps)
  obtain u ids where p: "p = (u, ids)" by (cases p)
  have "merge_all (p # ps) d = merge_all ps (merge_ids u ids d)"
    by (simp add: merge_all_def p)
  then show ?case
    using Cons.IH [of "merge_ids u ids d"] by (auto simp: p dom_merge_ids)
qed

lemma map_of_owners_of:
  "gid \<in> fst ` set d \<Longrightarrow> map_of d gid = Some (owners_of d gid)"
  by (cases "map_of d gid") (auto simp: owners_of_def map_of_eq_None_iff)

lemma build_games_records:
  "set ids \<subseteq> fst ` set d \<Longrightarrow>
   build_games ids id_to_name d games_out =
     Inr (games_out @ map (record_of d id_to_name) (filter (resolved id_to_name) ids))"
proof (induction ids arbitrary: games_out)
  case Nil
  show ?case by simp
next
  case (Cons gid ids)
  then have "map_of d gid = Some (owners_of d gid)"
    by (simp add: map_of_owners_of)
  with Cons show ?case
    by (auto simp: resolved_def record_of_def split: option.splits)
qed

lemma main_games_records:
  assumes "collect_owners E token bgg_users [] w = (Inr d, w1)"
    and "fetch_primary_names E (sort (map fst d)) token 20 w1 = (Inr id_to_name, w2)"
  shows "main_games E token bgg_users w =
     (Inr (sort_key game_key (map (record_of d id_to_name)
             (filter (resolved id_to_name) (sort (map fst d))))), w2)"
proof -
  have "set (sort (map fst d)) \<subseteq> fst ` set d" by simp
  from build_games_records [OF this, of id_to_name "[]"] assms show ?thesis
    by (simp add: main_games_def)
qed

lemma main_games_returns:
  assumes "main_games E token bgg_users w = (Inr games, w2)"
  obtains d w1 id_to_name where "collect_owners E token bgg_users [] w = (Inr d, w1)"
    and "fetch_primary_names E (sort (map fst d)) token 20 w1 = (Inr id_to_name, w2)"
    and "games = sort_key game_key (map (record_of d id_to_name)
             (filter (resolved id_to_name) (sort (map fst d))))"
proof -
  from assms obtain d w1 where c: "collect_owners E token bgg_users [] w = (Inr d, w1)"
    by (auto simp: main_games_def split: prod.splits sum.splits)
  with assms obtain id_to_name where
    f: "fetch_primary_names E (sort (map fst d)) token 20 w1 = (Inr id_to_name, w2)"
    by (auto simp: main_games_def Let_def split: prod.splits sum.splits)
  from main_games_records [OF c f] assms that [OF c f] show thesis by simp
qed

lemma collect_owners_merge_all:
  assumes "collect_owners E token bgg_users [] w = (Inr d, w1)"
  obtains idss where "fetch_all E token bgg_users w = (Inr idss, w1)"
    and "length idss = length bgg_users" and "d = merge_all (zip bgg_users idss) []"
proof -
  from assms obtain idss where f: "fetch_all E token bgg_users w = (Inr idss, w1)"
    and d: "d = merge_all (zip bgg_users idss) []"
    by (auto simp: collect_owners_fetch_all split: prod.splits sum.splits)
  from that [OF f fetch_all_length [OF f] d] show thesis .
qed

lemma owners_of_collected:
  assumes "length idss = length us"
  shows "owners_of (merge_all (zip us idss) []) g = {u. \<exists>i<length us. us ! i = u \<and> g \<in> set (idss ! i)}"
proof -
  have "\<And>u. (\<exists>ids. (u, ids) \<in> set (zip us idss) \<and> g \<in> set ids) =
      (\<exists>i<length us. us ! i = u \<and> g \<in> set (idss ! i))"
    using assms by (auto simp: set_zip) 
  moreover have "owners_of [] g = {}"
    by (simp add: owners_of_def)
  ultimately show ?thesis
    by (simp add: owners_of_merge_all)
qed

lemma keys_collected:
  assumes "length idss = length us"
  shows "fst ` set (merge_all (zip us idss) []) = {g. \<exists>i<length us. g \<in> set (idss ! i)}"
  using assms by (auto simp: keys_merge_all set_zip) 

lemma owners_of_collected_finite:
  assumes "length idss = length us"
  shows "finite (owners_of (merge_all (zip us idss) []) g)"
proof -
  have "owners_of (merge_all (zip us idss) []) g \<subseteq> set us"
    by (auto simp: owners_of_collected [OF assms])
  then show ?thesis by (rule finite_subset) simp
qed

lemma case_Inr_pairE:
  assumes "(case p of (Inr x, w) \<Rightarrow> P x w | _ \<Rightarrow> False)"
  obtains x w where "p = (Inr x, w)" and "P x w"
  using assms by (cases p) (auto split: sum.splits)

lemma main_writes_games:
  assumes "main E w = (Inr 0, w')"
  obtains token bgg_users games w2 where "getenv E ''BGG_TOKEN'' = Some token"
    and "parse_bgg_usernames_from_users_js (path_join (getcwd E) ''users.js'') w = Inr bgg_users"
    and "main_games E token bgg_users w = (Inr games, w2)"
    and "w' = write_games_js E (path_join (getcwd E) ''games.js'') games w2"
  using assms
  by (auto simp: main_def Let_def split: option.splits if_splits sum.splits prod.splits)

text \<open>
  C1. When the collection of the owners and the name resolution both return, the pipeline
  returns a list of records in which no id appears that the name mapping lacks or maps to
  the empty name, and every record carries an id that was collected and that the mapping
  resolves to the record's non-empty name.
\<close>

theorem main_games_drops_unresolved:
  assumes "collect_owners E token bgg_users [] w = (Inr game_to_owners, w1)"
    and "fetch_primary_names E (sort (map fst game_to_owners)) token 20 w1 = (Inr id_to_name, w2)"
  shows "\<exists>games. main_games E token bgg_users w = (Inr games, w2) \<and>
     (\<forall>gid\<in>fst ` set game_to_owners.
        (id_to_name gid = None \<or> id_to_name gid = Some []) \<longrightarrow> gid \<notin> g_id ` set games) \<and>
     (\<forall>g\<in>set games. g_id g \<in> fst ` set game_to_owners \<and>
        id_to_name (g_id g) = Some (g_name g) \<and> g_name g \<noteq> [])"
proof -
  let ?games = "sort_key game_key (map (record_of game_to_owners id_to_name)
             (filter (resolved id_to_name) (sort (map fst game_to_owners))))"
  have run: "main_games E token bgg_users w = (Inr ?games, w2)"
    by (rule main_games_records [OF assms])
  have "set ?games = record_of game_to_owners id_to_name `
      {gid \<in> fst ` set game_to_owners. resolved id_to_name gid}"
    by auto
  then have ids: "g_id ` set ?games = {gid \<in> fst ` set game_to_owners. resolved id_to_name gid}"
    by (simp add: image_image record_of_def)
  have "\<forall>gid\<in>fst ` set game_to_owners.
        (id_to_name gid = None \<or> id_to_name gid = Some []) \<longrightarrow> gid \<notin> g_id ` set ?games"
    unfolding ids by (auto simp: resolved_def)
  moreover have "\<forall>g\<in>set ?games. g_id g \<in> fst ` set game_to_owners \<and>
        id_to_name (g_id g) = Some (g_name g) \<and> g_name g \<noteq> []"
    by (auto simp: record_of_def resolved_def split: option.splits)
  ultimately show ?thesis using run by blast
qed

theorem main_games_drops_unresolved_witness:
  "\<exists>games w2. main_games scenario ''secret'' [''amy'', ''bo''] empty_world = (Inr games, w2) \<and>
     30 \<notin> g_id ` set games \<and> (\<forall>g\<in>set games. g_name g \<noteq> [])"
proof -
  have "(case collect_owners scenario ''secret'' [''amy'', ''bo''] [] empty_world of
          (Inr d, w1) \<Rightarrow>
            (case fetch_primary_names scenario (sort (map fst d)) ''secret'' 20 w1 of
               (Inr names, w2) \<Rightarrow> names 30 = None \<and> 30 \<in> fst ` set d
             | _ \<Rightarrow> False)
        | _ \<Rightarrow> False)"
    by code_simp
  then obtain d w1 where
    c: "collect_owners scenario ''secret'' [''amy'', ''bo''] [] empty_world = (Inr d, w1)"
    and rest: "(case fetch_primary_names scenario (sort (map fst d)) ''secret'' 20 w1 of
               (Inr names, w2) \<Rightarrow> names 30 = None \<and> 30 \<in> fst ` set d
             | _ \<Rightarrow> False)"
    by (rule case_Inr_pairE)
  from rest obtain names w2 where
    f: "fetch_primary_names scenario (sort (map fst d)) ''secret'' 20 w1 = (Inr names, w2)"
    and n: "names 30 = None \<and> 30 \<in> fst ` set d"
    by (rule case_Inr_pairE)
  from main_games_drops_unresolved [OF c f] obtain games where
    run: "main_games scenario ''secret'' [''amy'', ''bo''] empty_world = (Inr games, w2)"
    and dropped: "\<forall>gid\<in>fst ` set d. (names gid = None \<or> names gid = Some []) \<longrightarrow> gid \<notin> g_id ` set games"
    and named: "\<forall>g\<in>set games. g_id g \<in> fst ` set d \<and> names (g_id g) = Some (g_name g) \<and> g_name g \<noteq> []"
    by (elim exE conjE)
  from dropped n have "30 \<notin> g_id ` set games"
    by (elim conjE ballE [of _ _ 30]) simp_all
  moreover from named have "\<forall>g\<in>set games. g_name g \<noteq> []"
    by simp
  ultimately show ?thesis
    using run by (intro exI conjI)
qed

text \<open>
  C2. The list of records that the pipeline returns is sorted by the key (case-folded name,
  id): of two records the earlier has the smaller case-folded name, or the same one and an
  id that is not larger. In every record the owners are duplicate-free and sorted ascending.
  This holds for every list of identities, also one that names an identity twice.
\<close>

theorem main_games_sorted:
  assumes "main_games E token bgg_users w = (Inr games, w2)"
  shows "sorted (map game_key games) \<and>
     sorted_wrt (\<lambda>a b. casefold (g_name a) < casefold (g_name b) \<or>
                       (casefold (g_name a) = casefold (g_name b) \<and> g_id a \<le> g_id b)) games \<and>
     (\<forall>g\<in>set games. distinct (g_owners g) \<and> sorted (g_owners g))"
proof -
  from main_games_returns [OF assms] obtain d w1 id_to_name where
    games: "games = sort_key game_key (map (record_of d id_to_name)
             (filter (resolved id_to_name) (sort (map fst d))))"
    by blast
  have s: "sorted (map game_key games)"
    unfolding games by (rule sorted_sort_key)
  then have "sorted_wrt (\<lambda>a b. game_key a \<le> game_key b) games"
    by (simp add: sorted_map)
  then have "sorted_wrt (\<lambda>a b. casefold (g_name a) < casefold (g_name b) \<or>
                       (casefold (g_name a) = casefold (g_name b) \<and> g_id a \<le> g_id b)) games"
    by (rule sorted_wrt_mono_rel [rotated]) (auto simp: game_key_def less_eq_prod_def)
  moreover have "\<forall>g\<in>set games. distinct (g_owners g) \<and> sorted (g_owners g)"
    unfolding games by (auto simp: record_of_def)
  ultimately show ?thesis using s by blast
qed

theorem main_games_sorted_witness:
  "\<exists>games w2. main_games scenario ''secret'' [''bo'', ''amy'', ''bo''] empty_world = (Inr games, w2) \<and>
     sorted (map game_key games) \<and> (\<forall>g\<in>set games. distinct (g_owners g) \<and> sorted (g_owners g))"
proof -
  have "(case main_games scenario ''secret'' [''bo'', ''amy'', ''bo''] empty_world of
          (Inr games, w2) \<Rightarrow> True | _ \<Rightarrow> False)"
    by code_simp
  then obtain games w2 where
    run: "main_games scenario ''secret'' [''bo'', ''amy'', ''bo''] empty_world = (Inr games, w2)"
    by (auto split: prod.splits sum.splits)
  from main_games_sorted [OF run] run show ?thesis
    by blast
qed

text \<open>
  C10. In every record that the pipeline returns the list of owners is not empty, and an
  identity is among the owners of the record with id \<open>g\<close> exactly when it is one of the
  identities given to the pipeline and \<open>g\<close> is in the id list fetched for it; so every
  owner is one of those identities.
\<close>

theorem main_games_owners:
  assumes "fetch_all E token bgg_users w = (Inr idss, w1)"
    and "main_games E token bgg_users w = (Inr games, w2)"
  shows "length idss = length bgg_users \<and>
     (\<forall>g\<in>set games. g_owners g \<noteq> [] \<and> set (g_owners g) \<subseteq> set bgg_users \<and>
        (\<forall>u. u \<in> set (g_owners g) \<longleftrightarrow>
              (\<exists>i<length bgg_users. bgg_users ! i = u \<and> g_id g \<in> set (idss ! i))))"
proof -
  from main_games_returns [OF assms(2)] obtain d w1' id_to_name where
    c: "collect_owners E token bgg_users [] w = (Inr d, w1')"
    and games: "games = sort_key game_key (map (record_of d id_to_name)
             (filter (resolved id_to_name) (sort (map fst d))))"
    by blast
  from collect_owners_merge_all [OF c] assms(1) have
    len: "length idss = length bgg_users" and d: "d = merge_all (zip bgg_users idss) []"
    by auto
  have owners: "\<And>g. set (sorted_list_of_set (owners_of d g)) =
      {u. \<exists>i<length bgg_users. bgg_users ! i = u \<and> g \<in> set (idss ! i)}"
    unfolding d using owners_of_collected_finite [OF len] owners_of_collected [OF len] by simp
  have keys: "fst ` set d = {g. \<exists>i<length bgg_users. g \<in> set (idss ! i)}"
    unfolding d by (rule keys_collected [OF len])
  have "\<forall>g\<in>set games. g_owners g \<noteq> [] \<and> set (g_owners g) \<subseteq> set bgg_users \<and>
        (\<forall>u. u \<in> set (g_owners g) \<longleftrightarrow>
              (\<exists>i<length bgg_users. bgg_users ! i = u \<and> g_id g \<in> set (idss ! i)))"
  proof
    fix g
    assume "g \<in> set games"
    then obtain gid where gid: "gid \<in> fst ` set d" and g: "g = record_of d id_to_name gid"
      unfolding games by auto
    have set_owners: "set (g_owners g) =
        {u. \<exists>i<length bgg_users. bgg_users ! i = u \<and> g_id g \<in> set (idss ! i)}"
      by (simp add: g record_of_def owners)
    from gid keys obtain i where "i < length bgg_users" "gid \<in> set (idss ! i)"
      by auto
    then have "bgg_users ! i \<in> set (g_owners g)"
      unfolding set_owners by (auto simp: g record_of_def)
    then have "g_owners g \<noteq> []" by auto
    moreover have "set (g_owners g) \<subseteq> set bgg_users"
      unfolding set_owners by auto
    ultimately show "g_owners g \<noteq> [] \<and> set (g_owners g) \<subseteq> set bgg_users \<and>
        (\<forall>u. u \<in> set (g_owners g) \<longleftrightarrow>
              (\<exists>i<length bgg_users. bgg_users ! i = u \<and> g_id g \<in> set (idss ! i)))"
      using set_owners by blast
  qed
  with len show ?thesis by blast
qed

theorem main_games_owners_witness:
  "\<exists>games w2. main_games scenario ''secret'' [''amy'', ''bo''] empty_world = (Inr games, w2) \<and>
     fst (fetch_all scenario ''secret'' [''amy'', ''bo''] empty_world) = Inr [[10, 20, 30], [20]] \<and>
     (\<forall>g\<in>set games. g_owners g \<noteq> [] \<and>
        (''bo'' \<in> set (g_owners g) \<longleftrightarrow> g_id g = 20) \<and> (''amy'' \<in> set (g_owners g) \<longleftrightarrow> g_id g \<in> {10, 20, 30}))"
proof -
  have "(case fetch_all scenario ''secret'' [''amy'', ''bo''] empty_world of
          (Inr idss, w1) \<Rightarrow>
            idss = [[10, 20, 30], [20]] \<and>
            (case main_games scenario ''secret'' [''amy'', ''bo''] empty_world of
               (Inr games, w2) \<Rightarrow> True | _ \<Rightarrow> False)
        | _ \<Rightarrow> False)"
    by code_simp
  then obtain w1 games w2 where
    f: "fetch_all scenario ''secret'' [''amy'', ''bo''] empty_world = (Inr [[10, 20, 30], [20]], w1)"
    and run: "main_games scenario ''secret'' [''amy'', ''bo''] empty_world = (Inr games, w2)"
    by (auto split: prod.splits sum.splits)
  have "\<forall>g\<in>set games. g_owners g \<noteq> [] \<and>
        (''bo'' \<in> set (g_owners g) \<longleftrightarrow> g_id g = 20) \<and> (''amy'' \<in> set (g_owners g) \<longleftrightarrow> g_id g \<in> {10, 20, 30})"
  proof
    fix g
    assume g: "g \<in> set games"
    from main_games_owners [OF f run] g have ne: "g_owners g \<noteq> []"
      and iff: "\<And>u. u \<in> set (g_owners g) \<longleftrightarrow>
        (\<exists>i<length [''amy'', ''bo'']. [''amy'', ''bo''] ! i = u \<and> g_id g \<in> set ([[10, 20, 30], [20]] ! i))"
      by blast+
    have "''bo'' \<in> set (g_owners g) \<longleftrightarrow> g_id g = 20"
      unfolding iff by (auto simp: less_Suc_eq numeral_2_eq_2)
    moreover have "''amy'' \<in> set (g_owners g) \<longleftrightarrow> g_id g \<in> {10, 20, 30}"
      unfolding iff by (auto simp: less_Suc_eq numeral_2_eq_2)
    ultimately show "g_owners g \<noteq> [] \<and>
        (''bo'' \<in> set (g_owners g) \<longleftrightarrow> g_id g = 20) \<and> (''amy'' \<in> set (g_owners g) \<longleftrightarrow> g_id g \<in> {10, 20, 30})"
      using ne by blast
  qed
  with f run show ?thesis by auto
qed

section \<open>Parsing users.js: proofs\<close>










end
